theory Spec2Isabelle
  imports Main "HOL-Library.Word"
begin

unbundle bit_operations_syntax

section \<open>Bytes and Python integers\<close>

text \<open>
  A Python \<open>bytes\<close> value is a list of 8-bit words; a Python \<open>int\<close> is an
  unbounded \<open>int\<close>.  Python exceptions are values of \<open>py_error\<close> and a function that
  may raise returns \<open>py_error + 'a\<close>.
\<close>

type_synonym byte = "8 word"

datatype py_error = ValueError | TypeError | IndexError | OverflowError | AttributeError | ParseError

section \<open>utils.py: calculate_fcs\<close>

text \<open>
  The inner loop of the fallback branch: \<open>for _ in range(8)\<close> over the register.
\<close>

definition crc_shift :: "int \<Rightarrow> int" where
  "crc_shift crc =
     (if crc AND 0x8000 \<noteq> 0 then (push_bit 1 crc XOR 0x1021) AND 0xFFFF
      else push_bit 1 crc AND 0xFFFF)"

fun crc_bits :: "nat \<Rightarrow> int \<Rightarrow> int" where
  "crc_bits 0 crc = crc"
| "crc_bits (Suc n) crc = crc_bits n (crc_shift crc)"

definition crc_byte :: "int \<Rightarrow> byte \<Rightarrow> int" where
  "crc_byte crc b = crc_bits 8 (crc XOR push_bit 8 (uint b))"

definition fcs_fallback :: "byte list \<Rightarrow> int" where
  "fcs_fallback data = foldl crc_byte 0xFFFF data"

text \<open>
  \<open>_GXFCS16\<close> is imported from the Gurux library at the head of the module, without a
  handler, so in the module as it stands the name is never \<open>None\<close> and the function
  returns what the library returns; the loop runs only when the name has been set to
  \<open>None\<close>.  The library object is a parameter: \<open>None\<close>, or the primitive
  \<open>countFCS16(data, index, count)\<close>.
\<close>

type_synonym gxfcs16 = "(byte list \<Rightarrow> nat \<Rightarrow> nat \<Rightarrow> int) option"

definition calculate_fcs :: "gxfcs16 \<Rightarrow> byte list \<Rightarrow> int" where
  "calculate_fcs gx data =
     (case gx of
        Some countFCS16 \<Rightarrow> countFCS16 data 0 (length data)
      | None \<Rightarrow> fcs_fallback data)"

subsection \<open>The register algorithm, as the specification words it\<close>




subsection \<open>The reference: CRC-16/X.25\<close>






section \<open>Strings, hexadecimal text and integer conversion\<close>

text \<open>
  A Python \<open>str\<close> is a \<open>string\<close>: the characters are the code points below 256.
  \<open>py_ord\<close> is Python's \<open>ord\<close>.
\<close>

definition py_ord :: "char \<Rightarrow> nat" where
  "py_ord c = of_char c"

definition digit_char :: "nat \<Rightarrow> char" where
  "digit_char d = ''0123456789'' ! d"

text \<open>\<open>Py_ISSPACE\<close>: the ASCII white space that \<open>bytes.fromhex\<close> skips.\<close>

definition py_isspace :: "char \<Rightarrow> bool" where
  "py_isspace c = ((9 \<le> py_ord c \<and> py_ord c \<le> 13) \<or> py_ord c = 32)"

text \<open>
  White space that \<open>int(str, base)\<close> strips at both ends: the ASCII white space and,
  below 256, the Unicode spaces U+0085 and U+00A0.
\<close>

definition int_space :: "char \<Rightarrow> bool" where
  "int_space c = (py_isspace c \<or> py_ord c = 0x85 \<or> py_ord c = 0xA0)"

text \<open>The value of a character as a digit (\<open>_PyLong_DigitValue\<close>); 37 is "no digit".\<close>

definition digit_value :: "char \<Rightarrow> nat" where
  "digit_value c =
     (let n = py_ord c in
      if 48 \<le> n \<and> n \<le> 57 then n - 48
      else if 97 \<le> n \<and> n \<le> 122 then n - 87
      else if 65 \<le> n \<and> n \<le> 90 then n - 55
      else 37)"

definition is_hex :: "char \<Rightarrow> bool" where
  "is_hex c = (digit_value c < 16)"

fun double_underscore :: "string \<Rightarrow> bool" where
  "double_underscore (a # b # cs) =
     ((a = CHR ''_'' \<and> b = CHR ''_'') \<or> double_underscore (b # cs))"
| "double_underscore _ = False"

definition digits_val :: "nat \<Rightarrow> string \<Rightarrow> int" where
  "digits_val base ds = foldl (\<lambda>acc c. acc * int base + int (digit_value c)) 0 ds"

text \<open>\<open>sys.int_info.default_max_str_digits\<close>: the limit on decimal conversions.\<close>

definition int_max_str_digits :: nat where
  "int_max_str_digits = 4300"

text \<open>
  \<open>int(s, base)\<close> for base 10 and base 16 (\<open>PyLong_FromString\<close>): white space is
  stripped, one sign is read, base 16 accepts a \<open>0x\<close> prefix (and one underscore after
  it), digits may be separated by single underscores, and anything else raises
  ValueError (\<open>None\<close>).  A base that is no power of two refuses more than
  \<open>int_max_str_digits\<close> digits.
\<close>

definition int_sign_rest :: "string \<Rightarrow> bool \<times> string" where
  "int_sign_rest s =
     (if s \<noteq> [] \<and> hd s = CHR ''+'' then (False, tl s)
      else if s \<noteq> [] \<and> hd s = CHR ''-'' then (True, tl s)
      else (False, s))"

definition int_skip_prefix :: "nat \<Rightarrow> string \<Rightarrow> string" where
  "int_skip_prefix base s =
     (if base = 16 \<and> length s \<ge> 2 \<and> hd s = CHR ''0''
         \<and> (hd (tl s) = CHR ''x'' \<or> hd (tl s) = CHR ''X'')
      then (let r = drop 2 s in if r \<noteq> [] \<and> hd r = CHR ''_'' then tl r else r)
      else s)"

definition int_digits :: "nat \<Rightarrow> string \<Rightarrow> string option" where
  "int_digits base s =
     (let body = takeWhile (\<lambda>c. digit_value c < base \<or> c = CHR ''_'') s;
          rest = dropWhile (\<lambda>c. digit_value c < base \<or> c = CHR ''_'') s;
          ds = filter (\<lambda>c. c \<noteq> CHR ''_'') body
      in if body = [] \<or> hd body = CHR ''_'' \<or> last body = CHR ''_''
            \<or> double_underscore body \<or> \<not> list_all int_space rest
            \<or> (base \<noteq> 16 \<and> length ds > int_max_str_digits)
         then None
         else Some ds)"

definition py_int :: "nat \<Rightarrow> string \<Rightarrow> int option" where
  "py_int base s =
     (let (neg, s2) = int_sign_rest (dropWhile int_space s) in
      case int_digits base (int_skip_prefix base s2) of
        None \<Rightarrow> None
      | Some ds \<Rightarrow> Some ((if neg then - 1 else 1) * digits_val base ds))"

text \<open>Decimal digits of a natural number, most significant first.\<close>

fun dec :: "nat \<Rightarrow> string" where
  "dec n = (if n < 10 then [digit_char n] else dec (n div 10) @ [digit_char (n mod 10)])"

declare dec.simps [simp del]

text \<open>\<open>str(i)\<close> for an integer; more than \<open>int_max_str_digits\<close> digits raise ValueError.\<close>

definition py_str :: "int \<Rightarrow> string option" where
  "py_str i =
     (let ds = dec (nat \<bar>i\<bar>) in
      if length ds > int_max_str_digits then None
      else Some (if i < 0 then CHR ''-'' # ds else ds))"

text \<open>The format specification \<open>0wd\<close> applied to a non-negative integer.\<close>

definition fmt0 :: "nat \<Rightarrow> nat \<Rightarrow> string" where
  "fmt0 w n = replicate (w - length (dec n)) (CHR ''0'') @ dec n"

text \<open>\<open>sep.join(parts)\<close>.\<close>

fun join :: "string \<Rightarrow> string list \<Rightarrow> string" where
  "join sep [] = []"
| "join sep [x] = x"
| "join sep (x # y # ys) = x @ sep @ join sep (y # ys)"

definition mk_byte :: "nat \<Rightarrow> nat \<Rightarrow> byte" where
  "mk_byte hi lo = of_nat (hi * 16 + lo)"

text \<open>
  \<open>binascii.unhexlify(s)\<close>: pairs of hexadecimal digits and nothing else; an odd
  length or any other character raises (\<open>None\<close>).
\<close>

fun unhexlify :: "string \<Rightarrow> byte list option" where
  "unhexlify [] = Some []"
| "unhexlify [c] = None"
| "unhexlify (c # d # cs) =
     (if is_hex c \<and> is_hex d then
        (case unhexlify cs of
           None \<Rightarrow> None
         | Some bs \<Rightarrow> Some (mk_byte (digit_value c) (digit_value d) # bs))
      else None)"

text \<open>
  \<open>bytes.fromhex(s)\<close>: as \<open>unhexlify\<close>, but ASCII white space before a pair is
  skipped.  ValueError is \<open>None\<close>.
\<close>

fun fromhex :: "string \<Rightarrow> byte list option" where
  "fromhex [] = Some []"
| "fromhex (c # cs) =
     (if py_isspace c then fromhex cs
      else if \<not> is_hex c then None
      else (case cs of
              [] \<Rightarrow> None
            | d # ds \<Rightarrow>
                if is_hex d then
                  (case fromhex ds of
                     None \<Rightarrow> None
                   | Some bs \<Rightarrow> Some (mk_byte (digit_value c) (digit_value d) # bs))
                else None))"

section \<open>DLMS\_Parser.py: hex\_to\_obis\<close>

text \<open>
  The function has no exception handler: a ValueError of \<open>int(pair, 16)\<close> leaves it
  (\<open>Inl ValueError\<close>).
\<close>

definition hex_to_obis :: "string \<Rightarrow> py_error + string" where
  "hex_to_obis obis_hex =
     (if length obis_hex \<noteq> 12 then Inr obis_hex
      else
        (case those (map (\<lambda>i. py_int 16 (take 2 (drop i obis_hex))) [0, 2, 4, 6, 8, 10]) of
           None \<Rightarrow> Inl ValueError
         | Some parts \<Rightarrow>
             (case those (map py_str parts) of
                None \<Rightarrow> Inl ValueError
              | Some strs \<Rightarrow> Inr (join ''.'' strs))))"

section \<open>DLMS\_Parser.py: LongInvokeIdAndPriority\<close>

text \<open>
  \<open>str.upper()\<close> on one character.  Only the letters a to z change into ASCII
  characters; a character above 127 has an upper-case form without ASCII hexadecimal
  digits and is left as it is here, since the only use of the result is the membership
  filter below, which removes it either way.
\<close>

definition py_upper :: "char \<Rightarrow> char" where
  "py_upper c = (if 97 \<le> py_ord c \<and> py_ord c \<le> 122 then char_of (py_ord c - 32) else c)"

text \<open>\<open>''.join(c for c in value.upper() if c in "0123456789ABCDEF")\<close>\<close>

definition in_hex_upper :: "char \<Rightarrow> bool" where
  "in_hex_upper c = (c \<in> set ''0123456789ABCDEF'')"

definition clean_hex :: "string \<Rightarrow> string" where
  "clean_hex v = filter in_hex_upper (map py_upper v)"

text \<open>White space of \<open>str.strip()\<close> and of the pattern class \<open>\s\<close>, below 256.\<close>

definition str_space :: "char \<Rightarrow> bool" where
  "str_space c =
     (py_isspace c \<or> (28 \<le> py_ord c \<and> py_ord c \<le> 31) \<or> py_ord c = 0x85 \<or> py_ord c = 0xA0)"

definition py_strip :: "string \<Rightarrow> string" where
  "py_strip s = rev (dropWhile str_space (rev (dropWhile str_space s)))"

text \<open>
  The branch of \<open>enhance_xml_element\<close> for the tag \<open>LongInvokeIdAndPriority\<close>, given
  the attribute \<open>Value\<close>: the texts of the comments it appends to the element, in
  order.  The f-string that formats the decimal invoke-id is outside the
  \<open>try\<close>, so a ValueError of the conversion leaves the function.
\<close>

definition priority_comments :: "string \<Rightarrow> string \<times> string" where
  "priority_comments high_byte =
     (if high_byte = ''40'' then (''Normal priority.'', ''Confirmed service.'')
      else if high_byte = ''80'' then (''High priority.'', ''Non-confirmed service.'')
      else if high_byte = ''C0'' then (''High priority.'', ''Confirmed service.'')
      else (''Priority byte: 0x'' @ high_byte, ''Service type unknown.''))"

definition enhance_long_invoke :: "string \<Rightarrow> py_error + string list" where
  "enhance_long_invoke v =
     (if v = [] then Inr []
      else
        (let clean = clean_hex v in
         if clean \<noteq> [] \<and> length clean \<ge> 8 then
           (let high_byte = take 2 clean;
                invoke_id_hex = drop 2 clean;
                invoke_id_dec = py_int 16 invoke_id_hex;
                (priority_comment, confirmed_comment) = priority_comments high_byte;
                cs = ['' '' @ priority_comment @ '' '', '' '' @ confirmed_comment @ '' '']
            in case invoke_id_dec of
                 None \<Rightarrow> Inr cs
               | Some n \<Rightarrow>
                   (case py_str n of
                      None \<Rightarrow> Inl ValueError
                    | Some d \<Rightarrow> Inr (cs @ ['' Invoke ID: '' @ d @ '' ''])))
         else Inr []))"

text \<open>
  The branch of \<open>extract_dlms_request_info\<close> for the same tag: the fields
  \<open>invoke_id\<close>, \<open>high_byte\<close> and \<open>has_long_invoke\<close> of \<open>info\<close> after the branch, from
  their initial values \<open>None\<close>, \<open>None\<close>, \<open>False\<close>.
\<close>

record invoke_info =
  invoke_id :: "string option"
  high_byte :: "string option"
  has_long_invoke :: bool

definition extract_long_invoke :: "string \<Rightarrow> invoke_info" where
  "extract_long_invoke v =
     (let val = py_strip v;
          info = \<lparr>invoke_id = None, high_byte = None, has_long_invoke = False\<rparr>
      in if val \<noteq> [] then
           (let clean = clean_hex val in
            if clean \<noteq> [] \<and> length clean \<ge> 8 then
              \<lparr>invoke_id = Some (drop 2 clean), high_byte = Some (take 2 clean),
               has_long_invoke = True\<rparr>
            else info)
         else info)"

section \<open>DLMS\_Parser.py: try\_decode\_dlms\_datetime\<close>

text \<open>
  The UTC suffix of the result: \<open>dev_raw\<close> is the Python integer
  \<open>(data[9] << 8) | data[10]\<close>; the values formatted with \<open>02d\<close> are not negative.
\<close>

definition utc_suffix :: "byte list \<Rightarrow> string" where
  "utc_suffix data =
     (if length data \<ge> 11 then
        (let dev_high = uint (data ! 9);
             dev_low = uint (data ! 10);
             dev_raw = push_bit 8 dev_high OR dev_low
         in if dev_raw \<noteq> 0x8000 then
              (let dev = (if dev_raw > 32767 then dev_raw - 65536 else dev_raw)
               in if dev \<noteq> 0 then
                    (let sign = (if dev \<ge> 0 then ''+'' else ''-'');
                         total_min = nat \<bar>dev\<bar>;
                         h = total_min div 60;
                         m = total_min mod 60
                     in if m = 0 then '' UTC'' @ sign @ fmt0 2 h
                        else '' UTC'' @ sign @ fmt0 2 h @ '':'' @ fmt0 2 m)
                  else [])
            else [])
      else [])"

text \<open>
  Every exception inside the function is caught and gives \<open>None\<close>; the only call that
  can raise is \<open>unhexlify\<close>.
\<close>

definition try_decode_dlms_datetime :: "string \<Rightarrow> string option" where
  "try_decode_dlms_datetime hex_str =
     (if length hex_str < 10 \<or> length hex_str > 24 \<or> length hex_str mod 2 \<noteq> 0 then None
      else
        (case unhexlify hex_str of
           None \<Rightarrow> None
         | Some data \<Rightarrow>
             if length data < 5 then None
             else
               (let year = push_bit 8 (unat (data ! 0)) OR unat (data ! 1);
                    month = unat (data ! 2);
                    day = unat (data ! 3);
                    hour = (if length data > 5 then unat (data ! 5) else 0xFF);
                    minute = (if length data > 6 then unat (data ! 6) else 0xFF);
                    second = (if length data > 7 then unat (data ! 7) else 0xFF);
                    has_date = (year \<noteq> 0xFFFF \<and> month \<noteq> 0xFF \<and> day \<noteq> 0xFF);
                    has_time = (hour \<noteq> 0xFF \<and> minute \<noteq> 0xFF \<and> second \<noteq> 0xFF)
                in if \<not> (has_date \<or> has_time) then None
                   else
                     (let parts =
                            (if has_date
                             then [fmt0 4 year @ ''-'' @ fmt0 2 month @ ''-'' @ fmt0 2 day]
                             else [])
                            @ (if has_time
                               then [fmt0 2 hour @ '':'' @ fmt0 2 minute @ '':'' @ fmt0 2 second]
                               else []);
                          result = join '' '' parts
                      in Some (result @ utc_suffix data)))))"

subsection \<open>The DLMS date-time layout, as the specification words it\<close>

text \<open>
  The fields of a DLMS date-time of at least 5 bytes: a 16-bit big-endian year, month,
  day, (day of week), hour, minute, second, (hundredths), a signed 16-bit big-endian
  deviation in minutes, (clock status).  A byte that is not there counts as 0xFF,
  "unspecified".
\<close>

definition dt_field :: "byte list \<Rightarrow> nat \<Rightarrow> byte" where
  "dt_field data i = (if i < length data then data ! i else 0xFF)"

definition dt_year :: "byte list \<Rightarrow> nat" where
  "dt_year data = 256 * unat (dt_field data 0) + unat (dt_field data 1)"

definition full_date :: "byte list \<Rightarrow> bool" where
  "full_date data =
     (dt_year data \<noteq> 0xFFFF \<and> dt_field data 2 \<noteq> 0xFF \<and> dt_field data 3 \<noteq> 0xFF)"

definition full_time :: "byte list \<Rightarrow> bool" where
  "full_time data =
     (dt_field data 5 \<noteq> 0xFF \<and> dt_field data 6 \<noteq> 0xFF \<and> dt_field data 7 \<noteq> 0xFF)"

definition date_text :: "byte list \<Rightarrow> string" where
  "date_text data =
     fmt0 4 (dt_year data) @ ''-'' @ fmt0 2 (unat (dt_field data 2)) @ ''-''
       @ fmt0 2 (unat (dt_field data 3))"

definition time_text :: "byte list \<Rightarrow> string" where
  "time_text data =
     fmt0 2 (unat (dt_field data 5)) @ '':'' @ fmt0 2 (unat (dt_field data 6)) @ '':''
       @ fmt0 2 (unat (dt_field data 7))"

text \<open>The deviation as a 16-bit word; its signed reading is \<open>sint\<close>.\<close>

definition deviation_word :: "byte list \<Rightarrow> 16 word" where
  "deviation_word data = word_of_int (256 * uint (data ! 9) + uint (data ! 10))"

definition offset_text :: "byte list \<Rightarrow> string" where
  "offset_text data =
     (if length data \<ge> 11 \<and> deviation_word data \<noteq> 0x8000 \<and> deviation_word data \<noteq> 0
      then
        '' UTC'' @ (if 0 < sint (deviation_word data) then ''+'' else ''-'')
          @ fmt0 2 (nat \<bar>sint (deviation_word data)\<bar> div 60)
          @ (if nat \<bar>sint (deviation_word data)\<bar> mod 60 = 0 then []
             else '':'' @ fmt0 2 (nat \<bar>sint (deviation_word data)\<bar> mod 60))
      else [])"

definition datetime_text :: "byte list \<Rightarrow> string" where
  "datetime_text data =
     join '' '' ((if full_date data then [date_text data] else [])
                 @ (if full_time data then [time_text data] else []))
       @ offset_text data"

section \<open>Python datetime values\<close>

text \<open>
  The fields of a \<open>datetime\<close> that the program reads.  \<open>valid_datetime\<close> is what the
  constructor \<open>datetime(...)\<close> checks (it raises ValueError otherwise) and what every
  value returned by \<open>datetime.now()\<close> satisfies.
\<close>

record py_datetime =
  year :: nat
  month :: nat
  day :: nat
  hour :: nat
  minute :: nat
  second :: nat

definition is_leap :: "nat \<Rightarrow> bool" where
  "is_leap y = (y mod 4 = 0 \<and> (y mod 100 \<noteq> 0 \<or> y mod 400 = 0))"

definition days_in_month :: "nat \<Rightarrow> nat \<Rightarrow> nat" where
  "days_in_month y m =
     (if m = 2 then (if is_leap y then 29 else 28)
      else if m = 4 \<or> m = 6 \<or> m = 9 \<or> m = 11 then 30
      else 31)"

definition valid_datetime :: "py_datetime \<Rightarrow> bool" where
  "valid_datetime d =
     (1 \<le> year d \<and> year d \<le> 9999 \<and> 1 \<le> month d \<and> month d \<le> 12
      \<and> 1 \<le> day d \<and> day d \<le> days_in_month (year d) (month d)
      \<and> hour d \<le> 23 \<and> minute d \<le> 59 \<and> second d \<le> 59)"

section \<open>message\_handler.py: \_generate\_response\<close>

text \<open>
  \<open>GXByteBuffer.setUInt8(item)\<close> of the Gurux library appends the byte \<open>item & 0xFF\<close> to
  the buffer and never raises on an integer.
\<close>

definition set_uint8 :: "nat \<Rightarrow> byte" where
  "set_uint8 item = of_nat (item AND 0xFF)"

text \<open>
  \<open>bytes([n])\<close> and \<open>bytearray([.., n])\<close> build a byte and raise ValueError for a value
  outside 0..255.
\<close>

definition to_byte :: "nat \<Rightarrow> byte option" where
  "to_byte v = (if v < 256 then Some (of_nat v) else None)"

definition bytes_of :: "nat list \<Rightarrow> byte list option" where
  "bytes_of vs = those (map to_byte vs)"

text \<open>\<open>v.to_bytes(2, 'big')\<close>: OverflowError outside 0..65535.\<close>

definition be16 :: "int \<Rightarrow> byte list" where
  "be16 v = [of_int (v div 256), of_int (v mod 256)]"

definition to_bytes2_big :: "int \<Rightarrow> byte list option" where
  "to_bytes2_big v = (if 0 \<le> v \<and> v < 65536 then Some (be16 v) else None)"

text \<open>
  The function with the current time \<open>now\<close> as a parameter.  Any exception is caught
  and the function returns \<open>None\<close> after a log line; the log line is not part of the
  result.
\<close>

definition generate_response ::
  "gxfcs16 \<Rightarrow> py_datetime \<Rightarrow> byte list \<Rightarrow> string \<Rightarrow> byte list option" where
  "generate_response gx now address_field invoke_clean_hex =
     (case fromhex invoke_clean_hex of
        None \<Rightarrow> None
      | Some invoke \<Rightarrow>
          (let pdu_response =
                 map set_uint8
                   ([0x10] @ map unat invoke
                    @ [0x0C, drop_bit 8 (year now) AND 0xFF, year now AND 0xFF, month now, day now,
                       0xFF, hour now, minute now, second now, 0xFF, 0xFF, 0x4C, 0x00, 0x00])
           in
               (let control_byte = [0xA0];
                    fixed_prefix = [0x13];
                    llc = [0xE6, 0xE7, 0x00];
                    information_field = fixed_prefix @ llc @ pdu_response;
                    len = length (address_field @ information_field) + 6
                in case bytes_of [len] of
                     None \<Rightarrow> None
                   | Some len_bytes \<Rightarrow>
                       (case to_bytes2_big
                               (calculate_fcs gx
                                  (control_byte @ len_bytes @ address_field @ fixed_prefix)) of
                          None \<Rightarrow> None
                        | Some fcs_handler \<Rightarrow>
                            (let payload = address_field @ fixed_prefix @ fcs_handler @ llc
                                           @ pdu_response;
                                 data_for_fcs = control_byte @ len_bytes @ payload
                             in case to_bytes2_big (calculate_fcs gx data_for_fcs) of
                                  None \<Rightarrow> None
                                | Some fcs \<Rightarrow>
                                    Some ([0x7E, 0xA0] @ len_bytes @ payload @ fcs @ [0x7E]))))))"

section \<open>utils.py: classify\_day\_push\_entry and validate\_day\_push\_intervals\<close>

text \<open>
  A persisted day-push entry: the dictionary's key \<open>data\<close> holds a list of rows, each a
  dictionary with the keys \<open>timestamp\<close> (a string) and \<open>values\<close> (a list).  A key that
  is absent is \<open>None\<close>; \<open>dict.get\<close> then gives the default.
\<close>

record day_row =
  row_timestamp :: "string option"
  row_values :: "int list option"

record day_entry =
  entry_data :: "day_row list option"

definition get_default :: "'a option \<Rightarrow> 'a \<Rightarrow> 'a" where
  "get_default v d = (case v of None \<Rightarrow> d | Some x \<Rightarrow> x)"

text \<open>\<open>entry.get("data", [])\<close> and \<open>data[0].get("values", [])\<close>\<close>

definition entry_rows :: "day_entry \<Rightarrow> day_row list" where
  "entry_rows entry = get_default (entry_data entry) []"

definition first_values :: "day_entry \<Rightarrow> int list" where
  "first_values entry = get_default (row_values (hd (entry_rows entry))) []"

definition classify_day_push_entry :: "day_entry \<Rightarrow> string" where
  "classify_day_push_entry entry =
     (if entry_rows entry = [] then ''unknown''
      else if length (first_values entry) = 20 then ''daily''
      else if length (first_values entry) = 4 then ''half_hourly''
      else ''unknown'')"

text \<open>
  A value of \<open>datetime.fromisoformat\<close>: naive, or aware with an offset from UTC.  The
  wall-clock fields are counted in microseconds and so is the offset; comparison and
  subtraction of two naive values use the wall clock, of two aware values the instant
  (wall clock minus offset), and a naive value cannot be compared with an aware one
  (TypeError).
\<close>

datatype iso_datetime = Naive int | Aware int int

fun instant :: "iso_datetime \<Rightarrow> int" where
  "instant (Naive w) = w"
| "instant (Aware w off) = w - off"

fun is_naive :: "iso_datetime \<Rightarrow> bool" where
  "is_naive (Naive w) = True"
| "is_naive (Aware w off) = False"

text \<open>\<open>list.sort()\<close> on a list of at least two such values: stable, TypeError (\<open>None\<close>)
  on a mixed list.\<close>

definition sort_timestamps :: "iso_datetime list \<Rightarrow> iso_datetime list option" where
  "sort_timestamps ts =
     (if list_all is_naive ts \<or> list_all (\<lambda>t. \<not> is_naive t) ts
      then Some (sort_key instant ts) else None)"

text \<open>\<open>ts_str.replace("Z", "+00:00")\<close>\<close>

definition replace_Z :: "string \<Rightarrow> string" where
  "replace_Z s = concat (map (\<lambda>c. if c = CHR ''Z'' then ''+00:00'' else [c]) s)"

text \<open>The loop over consecutive pairs, with its early \<open>return False\<close>.\<close>

fun intervals_ok :: "int \<Rightarrow> iso_datetime list \<Rightarrow> bool" where
  "intervals_ok delta (a # b # ts) =
     (if instant b - instant a \<noteq> delta then False else intervals_ok delta (b # ts))"
| "intervals_ok delta ts = True"

text \<open>\<open>timedelta(days=1)\<close> and \<open>timedelta(minutes=30)\<close> in microseconds.\<close>

definition expected_delta :: "string \<Rightarrow> int" where
  "expected_delta profile_type =
     (if profile_type = ''daily'' then 86400000000 else 1800000000)"

text \<open>
  The parser \<open>datetime.fromisoformat\<close> of the standard library is a parameter; \<open>None\<close> is
  its ValueError.  Every exception inside the \<open>try\<close> gives \<open>False\<close>.
\<close>

definition parse_timestamps ::
  "(string \<Rightarrow> iso_datetime option) \<Rightarrow> day_row list \<Rightarrow> iso_datetime list option" where
  "parse_timestamps fromisoformat rows =
     those (map (\<lambda>r. fromisoformat (replace_Z (get_default (row_timestamp r) []))) rows)"

definition validate_day_push_intervals ::
  "(string \<Rightarrow> iso_datetime option) \<Rightarrow> day_entry \<Rightarrow> string \<Rightarrow> bool" where
  "validate_day_push_intervals fromisoformat entry profile_type =
     (let rows = entry_rows entry in
      if length rows < 2 then True
      else
        (case parse_timestamps fromisoformat rows of
           None \<Rightarrow> False
         | Some timestamps \<Rightarrow>
             (case sort_timestamps timestamps of
                None \<Rightarrow> False
              | Some sorted_ts \<Rightarrow> intervals_ok (expected_delta profile_type) sorted_ts)))"

subsection \<open>An example entry\<close>

text \<open>
  Four rows of four values, half an hour apart and stored out of order, with the values
  of \<open>fromisoformat\<close> on their timestamps (wall clock counted from the midnight of the
  day, offset three hours); and the same rows with the last one a second late.
\<close>

definition example_parse :: "string \<Rightarrow> iso_datetime option" where
  "example_parse =
     map_of [(''2026-01-13T00:00:00+03:00'', Aware 0 10800000000),
             (''2026-01-13T00:30:00+03:00'', Aware 1800000000 10800000000),
             (''2026-01-13T01:00:00+03:00'', Aware 3600000000 10800000000),
             (''2026-01-13T01:30:00+03:00'', Aware 5400000000 10800000000),
             (''2026-01-13T01:30:01+03:00'', Aware 5401000000 10800000000)]"

definition example_row :: "string \<Rightarrow> day_row" where
  "example_row ts = \<lparr>row_timestamp = Some ts, row_values = Some [1, 2, 3, 4]\<rparr>"

definition example_entry :: day_entry where
  "example_entry =
     \<lparr>entry_data = Some [example_row ''2026-01-13T01:00:00+03:00'',
                         example_row ''2026-01-13T00:00:00+03:00'',
                         example_row ''2026-01-13T01:30:00+03:00'',
                         example_row ''2026-01-13T00:30:00+03:00'']\<rparr>"

definition example_entry_late :: day_entry where
  "example_entry_late =
     \<lparr>entry_data = Some [example_row ''2026-01-13T01:00:00+03:00'',
                         example_row ''2026-01-13T00:00:00+03:00'',
                         example_row ''2026-01-13T01:30:01+03:00'',
                         example_row ''2026-01-13T00:30:00+03:00'']\<rparr>"

section \<open>Element trees\<close>

text \<open>
  An \<open>xml.etree.ElementTree.Element\<close> as the parser builds it (comments are dropped):
  tag, attributes, text and children.  An element object is identified by its position,
  the path of child indices from the root; two elements are the same object (\<open>is\<close>)
  iff their paths are equal.
\<close>

datatype elem = Elem (el_tag: string) (el_attrib: "(string \<times> string) list")
  (el_text: "string option") (el_children: "elem list")

type_synonym path = "nat list"

type_synonym node = "path \<times> elem"

text \<open>\<open>elem.get(key, default)\<close>\<close>

definition et_get :: "elem \<Rightarrow> string \<Rightarrow> string \<Rightarrow> string" where
  "et_get e key dflt = get_default (map_of (el_attrib e) key) dflt"

text \<open>The children of a node with their paths: \<open>list(elem)\<close>, \<open>for child in elem\<close>.\<close>

definition child_nodes :: "node \<Rightarrow> node list" where
  "child_nodes n = map (\<lambda>(i, c). (fst n @ [i], c)) (enumerate 0 (el_children (snd n)))"

text \<open>\<open>elem.iter()\<close>: the element and its descendants in document order.\<close>

fun iter_elems :: "elem \<Rightarrow> elem list" where
  "iter_elems (Elem t a x cs) = Elem t a x cs # concat (map iter_elems cs)"

text \<open>The same with paths, relative to the element.\<close>

fun iter_paths :: "elem \<Rightarrow> node list"
  and iter_paths_from :: "nat \<Rightarrow> elem list \<Rightarrow> node list" where
  "iter_paths (Elem t a x cs) = ([], Elem t a x cs) # iter_paths_from 0 cs"
| "iter_paths_from i [] = []"
| "iter_paths_from i (c # cs) =
     map (\<lambda>(p, e). (i # p, e)) (iter_paths c) @ iter_paths_from (Suc i) cs"

definition iter_nodes :: "node \<Rightarrow> node list" where
  "iter_nodes n = map (\<lambda>(p, e). (fst n @ p, e)) (iter_paths (snd n))"

text \<open>
  The path expressions of \<open>find\<close> and \<open>findall\<close> that the program uses: a sequence of
  steps, \<open>.//tag\<close> (all proper descendants with the tag, in document order) or \<open>tag\<close>
  (the children with the tag).  \<open>find\<close> gives the first match.
\<close>

datatype step = Desc string | Child string

fun et_step :: "step \<Rightarrow> node \<Rightarrow> node list" where
  "et_step (Desc t) n = filter (\<lambda>m. el_tag (snd m) = t) (tl (iter_nodes n))"
| "et_step (Child t) n = filter (\<lambda>m. el_tag (snd m) = t) (child_nodes n)"

fun et_iterfind :: "step list \<Rightarrow> node list \<Rightarrow> node list" where
  "et_iterfind [] ns = ns"
| "et_iterfind (s # ss) ns = et_iterfind ss (concat (map (et_step s) ns))"

definition et_findall :: "step list \<Rightarrow> node \<Rightarrow> node list" where
  "et_findall steps n = et_iterfind steps [n]"

definition et_find :: "step list \<Rightarrow> node \<Rightarrow> node option" where
  "et_find steps n = (case et_findall steps n of [] \<Rightarrow> None | m # _ \<Rightarrow> Some m)"

subsection \<open>Positions in a tree\<close>

text \<open>The element at a path below an element, if the path exists.\<close>

fun elem_at :: "elem \<Rightarrow> path \<Rightarrow> elem option" where
  "elem_at e [] = Some e"
| "elem_at e (i # p) =
     (if i < length (el_children e) then elem_at (el_children e ! i) p else None)"

text \<open>A node of the tree under \<open>root\<close>: its element is the one at its path.\<close>

definition valid_node :: "elem \<Rightarrow> node \<Rightarrow> bool" where
  "valid_node root n = (elem_at root (fst n) = Some (snd n))"

text \<open>The parent of the position \<open>q\<close> below the element \<open>e\<close>, which is at \<open>pp\<close>.\<close>

definition parent_node :: "path \<Rightarrow> elem \<Rightarrow> path \<Rightarrow> node" where
  "parent_node pp e q = (pp @ butlast q, the (elem_at e (butlast q)))"

section \<open>Push\_Parser.py: is\_new\_style\_push\<close>

text \<open>
  The argument is the result of \<open>ET.fromstring\<close>: \<open>None\<close> when the parser raises
  ParseError, which the function catches like every other exception.
\<close>

definition is_new_style_push :: "elem option \<Rightarrow> bool" where
  "is_new_style_push xml =
     (case xml of
        None \<Rightarrow> False
      | Some root \<Rightarrow>
          (case et_find [Desc ''NotificationBody'', Child ''DataValue''] ([], root) of
             None \<Rightarrow> False
           | Some data_value \<Rightarrow>
               (case List.find (\<lambda>e. el_tag e = ''Structure'') (iter_elems (snd data_value)) of
                  None \<Rightarrow> False
                | Some structure \<Rightarrow>
                    (case el_children structure of
                       [] \<Rightarrow> False
                     | first # _ \<Rightarrow>
                         if el_tag first \<noteq> ''OctetString'' then False
                         else
                           (let hex_val = et_get first ''Value'' [] in
                            if length hex_val \<noteq> 12 then True else False)))))"

section \<open>Push\_Parser.py: the invoke-id, \_parse\_dlms\_datetime, parse\_new\_style\_push\<close>

text \<open>
  The extraction of the invoke-id, the same lines in \<open>parse_new_style_push\<close> and in
  \<open>extract_obis_values_and_invoke_id\<close>; a ValueError of \<open>int\<close> is passed over.
\<close>

definition push_invoke_id :: "elem \<Rightarrow> int option" where
  "push_invoke_id root =
     (case et_find [Desc ''LongInvokeIdAndPriority''] ([], root) of
        None \<Rightarrow> None
      | Some long_invoke \<Rightarrow>
          (let hex_val = et_get (snd long_invoke) ''Value'' [] in
           if hex_val \<noteq> [] then
             (let clean = clean_hex hex_val in
              if length clean \<ge> 8 then py_int 16 (drop 2 clean) else None)
           else None))"

text \<open>\<open>int.from_bytes(b[9:11], 'big', signed=True)\<close>\<close>

definition signed_be16 :: "byte \<Rightarrow> byte \<Rightarrow> int" where
  "signed_be16 hi lo =
     (let u = 256 * uint hi + uint lo in if u \<ge> 32768 then u - 65536 else u)"

text \<open>
  \<open>timezone(timedelta(minutes=m))\<close>: the offset in minutes, ValueError (\<open>None\<close>) unless
  the offset is strictly between minus and plus 24 hours.  \<open>timezone.utc\<close> is offset 0.
\<close>

definition mk_timezone :: "int \<Rightarrow> int option" where
  "mk_timezone m = (if - 1440 < m \<and> m < 1440 then Some m else None)"

text \<open>\<open>dt.isoformat()\<close> for an aware datetime without microseconds, offset in minutes.\<close>

definition isoformat :: "py_datetime \<Rightarrow> int \<Rightarrow> string" where
  "isoformat d off =
     fmt0 4 (year d) @ ''-'' @ fmt0 2 (month d) @ ''-'' @ fmt0 2 (day d) @ ''T''
       @ fmt0 2 (hour d) @ '':'' @ fmt0 2 (minute d) @ '':'' @ fmt0 2 (second d)
       @ (if off < 0 then ''-'' else ''+'')
       @ fmt0 2 (nat \<bar>off\<bar> div 60) @ '':'' @ fmt0 2 (nat \<bar>off\<bar> mod 60)"

text \<open>
  The arguments of the constructor call \<open>datetime(year, month, day, hour, minute,
  second, ...)\<close>, read from the bytes 0 to 7 (the year is
  \<open>int.from_bytes(b[0:2], 'big')\<close>).
\<close>

definition dlms_fields :: "byte list \<Rightarrow> py_datetime" where
  "dlms_fields b =
     \<lparr>year = 256 * unat (b ! 0) + unat (b ! 1), month = unat (b ! 2), day = unat (b ! 3),
      hour = unat (b ! 5), minute = unat (b ! 6), second = unat (b ! 7)\<rparr>"

definition parse_dlms_datetime :: "string \<Rightarrow> py_error + string" where
  "parse_dlms_datetime hex_str =
     (case fromhex hex_str of
        None \<Rightarrow> Inl ValueError
      | Some b \<Rightarrow>
          if length b < 12 then Inl ValueError
          else
            (let deviation = signed_be16 (b ! 9) (b ! 10);
                 tz = (if deviation \<noteq> 0x8000 then mk_timezone deviation else Some 0)
             in case tz of
                  None \<Rightarrow> Inl ValueError
                | Some off \<Rightarrow>
                    if valid_datetime (dlms_fields b) then Inr (isoformat (dlms_fields b) off)
                    else Inl ValueError))"

text \<open>\<open>bytes.decode('ascii')\<close>: UnicodeDecodeError (\<open>None\<close>) on a byte above 127.\<close>

definition decode_ascii :: "byte list \<Rightarrow> string option" where
  "decode_ascii b =
     (if list_all (\<lambda>x. unat x < 128) b then Some (map (\<lambda>x. char_of (unat x)) b) else None)"

definition hex_to_ascii :: "string \<Rightarrow> string" where
  "hex_to_ascii hex_str =
     (case fromhex hex_str of
        None \<Rightarrow> hex_str
      | Some b \<Rightarrow> (case decode_ascii b of None \<Rightarrow> hex_str | Some s \<Rightarrow> s))"

text \<open>
  The values of a row: \<open>int(val_elem.get("Value", "0"))\<close>, in base 10, for every
  \<open>UInt32\<close> element after the first child; 0 when \<open>int\<close> raises.
\<close>

definition day_push_values :: "elem list \<Rightarrow> int list" where
  "day_push_values es =
     map (\<lambda>v. get_default (py_int 10 (et_get v ''Value'' ''0'')) 0)
       (filter (\<lambda>v. el_tag v = ''UInt32'') es)"

text \<open>One pass of the row loop: \<open>None\<close> when the row is skipped by \<open>continue\<close>.\<close>

definition day_push_row :: "elem \<Rightarrow> day_row option" where
  "day_push_row struct_elem =
     (case el_children struct_elem of
        [] \<Rightarrow> None
      | date_octet # rest \<Rightarrow>
          if el_tag date_octet \<noteq> ''OctetString'' then None
          else
            (case parse_dlms_datetime (et_get date_octet ''Value'' []) of
               Inl e \<Rightarrow> None
             | Inr timestamp_iso \<Rightarrow>
                 Some \<lparr>row_timestamp = Some timestamp_iso,
                       row_values = Some (day_push_values rest)\<rparr>))"

record day_push_result =
  dp_invoke_id :: "int option"
  dp_logical_name :: string
  dp_data :: "day_row list"

text \<open>
  \<open>parse_new_style_push\<close> has no handler: a missing \<open>DataValue\<close> raises TypeError (the
  loop over \<open>None\<close>), a missing \<open>Structure\<close> child ValueError, fewer than two children
  IndexError.
\<close>

definition parse_new_style_push :: "elem option \<Rightarrow> py_error + day_push_result" where
  "parse_new_style_push xml =
     (case xml of
        None \<Rightarrow> Inl ParseError
      | Some root \<Rightarrow>
          (case et_find [Desc ''NotificationBody'', Child ''DataValue''] ([], root) of
             None \<Rightarrow> Inl TypeError
           | Some data_value \<Rightarrow>
               (case List.find (\<lambda>c. el_tag c = ''Structure'') (el_children (snd data_value)) of
                  None \<Rightarrow> Inl ValueError
                | Some structure \<Rightarrow>
                    (case el_children structure of
                       [] \<Rightarrow> Inl IndexError
                     | [c0] \<Rightarrow> Inl IndexError
                     | c0 # array_elem # cs \<Rightarrow>
                         Inr \<lparr>dp_invoke_id = push_invoke_id root,
                              dp_logical_name = hex_to_ascii (et_get c0 ''Value'' []),
                              dp_data =
                                List.map_filter day_push_row
                                  (filter (\<lambda>s. el_tag s = ''Structure'')
                                     (el_children array_elem))\<rparr>))))"

subsection \<open>An example row\<close>

definition example_struct :: "string \<Rightarrow> elem" where
  "example_struct hex =
     Elem ''Structure'' [(''Qty'', ''02'')] None
       [Elem ''OctetString'' [(''Value'', hex)] None [],
        Elem ''UInt32'' [(''Value'', ''00000010'')] None []]"

section \<open>Push\_Parser.py: extract\_obis\_values\_and\_invoke\_id\<close>

text \<open>The dictionaries and lists that the function builds, keys in insertion order.\<close>

datatype jvalue = JStr string | JList "jvalue list" | JDict "(string \<times> jvalue) list"

text \<open>\<open>needle in haystack\<close> on strings.\<close>

fun contains :: "string \<Rightarrow> string \<Rightarrow> bool" where
  "contains needle [] = (needle = [])"
| "contains needle (c # cs) = (take (length needle) (c # cs) = needle \<or> contains needle cs)"

text \<open>\<open>s.replace(old, "")\<close> for a non-empty \<open>old\<close>: the occurrences are removed from left
  to right.\<close>

function remove_all :: "string \<Rightarrow> string \<Rightarrow> string" where
  "remove_all old [] = []"
| "remove_all old (c # cs) =
     (if old \<noteq> [] \<and> take (length old) (c # cs) = old
      then remove_all old (drop (length old) (c # cs))
      else c # remove_all old cs)"
  by pat_completeness auto
termination
  by (relation "measure (\<lambda>(old, s). length s)") auto

text \<open>
  The dotted form of a 12-character value, as both places of this module compute it:
  any ValueError leaves the value as it is (\<open>None\<close> here).
\<close>

definition dotted_obis :: "string \<Rightarrow> string option" where
  "dotted_obis hex_val =
     (case those (map (\<lambda>i. py_int 16 (take 2 (drop i hex_val))) [0, 2, 4, 6, 8, 10]) of
        None \<Rightarrow> None
      | Some parts \<Rightarrow>
          (case those (map py_str parts) of
             None \<Rightarrow> None
           | Some strs \<Rightarrow> Some (join ''.'' strs)))"

text \<open>\<open>str(int(hex_val, 16))\<close> inside \<open>try\<close>: \<open>None\<close> when either call raises.\<close>

definition hex_decimal :: "string \<Rightarrow> string option" where
  "hex_decimal hex_val = (case py_int 16 hex_val of None \<Rightarrow> None | Some n \<Rightarrow> py_str n)"

definition int8_decimal :: "string \<Rightarrow> string option" where
  "int8_decimal hex_val =
     (case py_int 16 hex_val of
        None \<Rightarrow> None
      | Some n \<Rightarrow> py_str (if n > 127 then n - 256 else n))"

definition opt_key :: "string \<Rightarrow> string option \<Rightarrow> (string \<times> jvalue) list" where
  "opt_key k v = (case v of None \<Rightarrow> [] | Some s \<Rightarrow> [(k, JStr s)])"

text \<open>The nested function \<open>_parse_xml_element_value\<close>.\<close>

fun parse_xml_element_value :: "elem \<Rightarrow> jvalue" where
  "parse_xml_element_value (Elem t a x cs) =
     (let hex_val = get_default (map_of a ''Value'') [];
          qty = get_default (map_of a ''Qty'') ''0''
      in if t = ''Enum'' then JDict [(''type'', JStr t), (''value'', JStr hex_val)]
         else if t = ''OctetString'' then
           JDict ([(''type'', JStr t), (''value'', JStr hex_val)]
                  @ (if length hex_val = 12 then opt_key ''obis'' (dotted_obis hex_val) else [])
                  @ opt_key ''ascii''
                      (case fromhex hex_val of None \<Rightarrow> None | Some b \<Rightarrow> decode_ascii b))
         else if t = ''UInt32'' \<or> t = ''UInt16'' \<or> t = ''UInt8'' then
           JDict ([(''type'', JStr t), (''value'', JStr hex_val)]
                  @ opt_key ''decimal'' (hex_decimal hex_val))
         else if t = ''Int8'' then
           JDict ([(''type'', JStr t), (''value'', JStr hex_val)]
                  @ opt_key ''decimal'' (int8_decimal hex_val))
         else if t = ''Structure'' then
           JDict [(''type'', JStr t), (''qty'', JStr qty),
                  (''fields'', JList (map parse_xml_element_value cs))]
         else if t = ''Array'' then
           JDict [(''type'', JStr t), (''qty'', JStr qty),
                  (''items'', JList (map parse_xml_element_value cs))]
         else JDict [(''type'', JStr t), (''value'', JStr (''['' @ t @ '']''))])"

record obis_entry =
  oe_obis :: string
  oe_hex :: string
  oe_comment :: string

text \<open>The comment of an entry, from the text of the \<open>OctetString\<close> or from its children
  (the last child whose tag contains \<open>Comment\<close>).\<close>

definition entry_comment :: "elem \<Rightarrow> string" where
  "entry_comment octet =
     (if (case el_text octet of None \<Rightarrow> False | Some t \<Rightarrow> t \<noteq> [] \<and> contains ''<!--'' t)
      then py_strip (remove_all ''-->'' (remove_all ''<!--'' (py_strip (get_default (el_text octet) []))))
      else if el_children octet \<noteq> [] then
        foldl (\<lambda>comment c. if contains ''Comment'' (el_tag c)
                              then py_strip (get_default (el_text c) []) else comment)
          [] (el_children octet)
      else [])"

text \<open>One pass of the loop over \<open>obis_array.findall("Structure")\<close>; \<open>None\<close> for
  \<open>continue\<close>.\<close>

definition obis_entry_of :: "elem \<Rightarrow> obis_entry option" where
  "obis_entry_of struct =
     (case List.find (\<lambda>c. el_tag c = ''OctetString'') (el_children struct) of
        None \<Rightarrow> None
      | Some octet \<Rightarrow>
          (let hex_val = et_get octet ''Value'' [] in
           Some \<lparr>oe_obis = (if length hex_val = 12
                             then get_default (dotted_obis hex_val) hex_val else hex_val),
                 oe_hex = hex_val,
                 oe_comment = entry_comment octet\<rparr>))"

definition obis_entries_of :: "elem \<Rightarrow> obis_entry list" where
  "obis_entries_of obis_array =
     List.map_filter obis_entry_of
       (filter (\<lambda>s. el_tag s = ''Structure'') (el_children obis_array))"

text \<open>
  \<open>_find_parent\<close>: the inner \<open>_iter(parent, target)\<close> walks the children of \<open>parent\<close>
  and compares each with the target by identity.
\<close>

fun find_parent_iter :: "node \<Rightarrow> path \<Rightarrow> node option"
  and find_parent_loop :: "node \<Rightarrow> nat \<Rightarrow> elem list \<Rightarrow> path \<Rightarrow> node option" where
  "find_parent_iter (pp, Elem t a x cs) target =
     find_parent_loop (pp, Elem t a x cs) 0 cs target"
| "find_parent_loop parent i [] target = None"
| "find_parent_loop parent i (c # cs) target =
     (if fst parent @ [i] = target then Some parent
      else
        (case find_parent_iter (fst parent @ [i], c) target of
           Some r \<Rightarrow> Some r
         | None \<Rightarrow> find_parent_loop parent (Suc i) cs target))"

definition find_parent :: "elem \<Rightarrow> path \<Rightarrow> node option" where
  "find_parent root child = (if child \<noteq> [] then find_parent_iter ([], root) child else None)"

text \<open>\<open>all_children.index(obis_array)\<close>, by identity; \<open>None\<close> is its ValueError.\<close>

fun index_of :: "node list \<Rightarrow> path \<Rightarrow> nat option" where
  "index_of [] target = None"
| "index_of (n # ns) target =
     (if fst n = target then Some 0 else map_option Suc (index_of ns target))"

text \<open>The loop over \<open>enumerate(elements_after)\<close>, from index \<open>i\<close> on.\<close>

fun collect_values :: "nat \<Rightarrow> nat \<Rightarrow> node list \<Rightarrow> jvalue list" where
  "collect_values i expected_values [] = []"
| "collect_values i expected_values (e # es) =
     (if i < expected_values
      then parse_xml_element_value (snd e) # collect_values (Suc i) expected_values es
      else collect_values (Suc i) expected_values es)"

record push_record =
  rec_obis :: string
  rec_value :: jvalue
  rec_comment :: string

definition empty_value :: jvalue where
  "empty_value = JDict [(''type'', JStr ''Empty''), (''value'', JStr [])]"

definition missing_value :: jvalue where
  "missing_value = JDict [(''type'', JStr ''Missing''), (''value'', JStr ''[missing]'')]"

text \<open>The loop over \<open>enumerate(obis_entries)\<close>, from index \<open>i\<close> on.\<close>

fun assemble_records :: "nat \<Rightarrow> obis_entry list \<Rightarrow> jvalue list \<Rightarrow> push_record list" where
  "assemble_records i [] vs = []"
| "assemble_records i (entry # es) vs =
     \<lparr>rec_obis = oe_obis entry,
      rec_value = (if i = 0 then empty_value
                   else if i - 1 < length vs then vs ! (i - 1) else missing_value),
      rec_comment = oe_comment entry\<rparr>
     # assemble_records (Suc i) es vs"

record obis_result =
  res_invoke_id :: "int option"
  res_records :: "push_record list"
  res_extra_structures :: "jvalue list"

text \<open>The siblings after the array in the parent, or nothing when \<open>index\<close> fails.\<close>

definition elements_after :: "node \<Rightarrow> path \<Rightarrow> node list" where
  "elements_after parent_struct target =
     (case index_of (child_nodes parent_struct) target of
        None \<Rightarrow> []
      | Some idx \<Rightarrow> drop (idx + 1) (child_nodes parent_struct))"

definition extract_obis_values_and_invoke_id :: "elem option \<Rightarrow> py_error + obis_result" where
  "extract_obis_values_and_invoke_id xml =
     (case xml of
        None \<Rightarrow> Inl ValueError
      | Some root \<Rightarrow>
          (case et_find [Desc ''DataValue'', Child ''Structure'', Child ''Array''] ([], root) of
             None \<Rightarrow>
               Inr \<lparr>res_invoke_id = push_invoke_id root, res_records = [],
                    res_extra_structures = []\<rparr>
           | Some obis_array \<Rightarrow>
               (let obis_entries = obis_entries_of (snd obis_array) in
                case find_parent root (fst obis_array) of
                  None \<Rightarrow>
                    Inr \<lparr>res_invoke_id = push_invoke_id root,
                         res_records =
                           map (\<lambda>e. \<lparr>rec_obis = oe_obis e, rec_value = JStr ''[no data]'',
                                      rec_comment = oe_comment e\<rparr>) obis_entries,
                         res_extra_structures = []\<rparr>
                | Some parent_struct \<Rightarrow>
                    (let expected_values = length obis_entries - 1;
                         vs = collect_values 0 expected_values
                                (elements_after parent_struct (fst obis_array))
                     in Inr \<lparr>res_invoke_id = push_invoke_id root,
                             res_records = assemble_records 0 obis_entries vs,
                             res_extra_structures = []\<rparr>))))"

section \<open>Push\_Parser.py: parse\_dlms\_push\_xml\<close>

text \<open>The result with its key \<open>type\<close>; an exception of the chosen parser leaves the
  function.\<close>

datatype push_result = Day_push day_push_result | Obis_push obis_result

definition parse_dlms_push_xml :: "elem option \<Rightarrow> py_error + push_result" where
  "parse_dlms_push_xml xml =
     (if is_new_style_push xml then
        (case parse_new_style_push xml of Inl e \<Rightarrow> Inl e | Inr r \<Rightarrow> Inr (Day_push r))
      else
        (case extract_obis_values_and_invoke_id xml of
           Inl e \<Rightarrow> Inl e
         | Inr r \<Rightarrow> Inr (Obis_push r)))"

subsection \<open>An example notification\<close>

text \<open>Three OBIS entries followed by two value elements and one more sibling.\<close>

definition obis_struct :: "string \<Rightarrow> elem" where
  "obis_struct hex =
     Elem ''Structure'' [(''Qty'', ''04'')] None
       [Elem ''UInt16'' [(''Value'', ''0001'')] None [],
        Elem ''OctetString'' [(''Value'', hex)] None []]"

definition example_array :: elem where
  "example_array =
     Elem ''Array'' [(''Qty'', ''03'')] None
       [obis_struct ''0000190900FF'', obis_struct ''0000600100FF'',
        obis_struct ''0000616200FF'']"

definition example_structure :: elem where
  "example_structure =
     Elem ''Structure'' [(''Qty'', ''04'')] None
       [example_array,
        Elem ''OctetString'' [(''Value'', ''3132'')] None [],
        Elem ''UInt8'' [(''Value'', ''05'')] None [],
        Elem ''Enum'' [(''Value'', ''01'')] None []]"

definition example_notification :: elem where
  "example_notification =
     Elem ''DataNotification'' [] None
       [Elem ''LongInvokeIdAndPriority'' [(''Value'', ''C000001A'')] None [],
        Elem ''NotificationBody'' [] None
          [Elem ''DataValue'' [] None [example_structure]]]"

text \<open>A day-push notification: the first field is a logical name of three characters,
  the array of rows is empty.\<close>

definition example_day_structure :: elem where
  "example_day_structure =
     Elem ''Structure'' [(''Qty'', ''02'')] None
       [Elem ''OctetString'' [(''Value'', ''50454E'')] None [],
        Elem ''Array'' [(''Qty'', ''00'')] None []]"

definition example_day_push :: elem where
  "example_day_push =
     Elem ''DataNotification'' [] None
       [Elem ''LongInvokeIdAndPriority'' [(''Value'', ''C000001A'')] None [],
        Elem ''NotificationBody'' [] None
          [Elem ''DataValue'' [] None [example_day_structure]]]"

section \<open>message\_handler.py: process\_message and the autoconnect check\<close>

text \<open>
  The text that \<open>raw_data.decode('utf-8', errors='replace')\<close> returns is a sequence of
  Unicode code points.  A literal of the pattern is written as a \<open>string\<close>.
\<close>

type_synonym utext = "nat list"





text \<open>
  The pattern \<open><sn=(\S+)\s+ip=([\d.]+)\s+pt=(\d+)>\<close> is a sequence of literals and
  greedy repetitions \<open>+\<close> of a character class, three of them capturing groups.
\<close>

datatype char_class = Space | Non_space | Digit | Digit_or_dot


datatype item = Lit utext | Plus char_class | Group_plus char_class














subsection \<open>The interpreter's table and the value of a port\<close>



subsection \<open>An example buffer\<close>




section \<open>Properties of the text and integer helpers\<close>

lemma py_ord_inj: "py_ord c = py_ord d \<longleftrightarrow> c = d"
  by (simp add: py_ord_def)

lemma is_hex_ord:
  "is_hex c \<longleftrightarrow> (48 \<le> py_ord c \<and> py_ord c \<le> 57) \<or> (65 \<le> py_ord c \<and> py_ord c \<le> 70)
      \<or> (97 \<le> py_ord c \<and> py_ord c \<le> 102)"
  unfolding is_hex_def digit_value_def Let_def by auto

lemma chr_eq_ord: "c = CHR ''-'' \<longleftrightarrow> py_ord c = 45" "c = CHR ''+'' \<longleftrightarrow> py_ord c = 43"
  "c = CHR ''_'' \<longleftrightarrow> py_ord c = 95" "c = CHR ''x'' \<longleftrightarrow> py_ord c = 120" "c = CHR ''X'' \<longleftrightarrow> py_ord c = 88"
   "c = CHR ''0'' \<longleftrightarrow> py_ord c = 48"
  unfolding py_ord_inj [symmetric] by (simp_all add: py_ord_def)

lemma hex_not_special:
  assumes "is_hex c"
  shows "\<not> int_space c" "c \<noteq> CHR ''-''" "c \<noteq> CHR ''+''" "c \<noteq> CHR ''_''" "c \<noteq> CHR ''x''" "c \<noteq> CHR ''X''"
  using assms unfolding is_hex_ord chr_eq_ord int_space_def py_isspace_def by auto

lemma py_int_hex_pair:
  assumes "is_hex c" "is_hex d"
  shows "py_int 16 [c, d] = Some (int (digit_value c * 16 + digit_value d))"
proof -
  have 1: "dropWhile int_space [c, d] = [c, d]"
    using hex_not_special(1) [OF assms(1)] by simp
  have 2: "int_sign_rest [c, d] = (False, [c, d])"
    using hex_not_special [OF assms(1)] by (simp add: int_sign_rest_def)
  have 3: "int_skip_prefix 16 [c, d] = [c, d]"
    using hex_not_special [OF assms(2)] by (simp add: int_skip_prefix_def)
  have 4: "int_digits 16 [c, d] = Some [c, d]"
    using assms hex_not_special [OF assms(1)] hex_not_special [OF assms(2)]
    by (simp add: int_digits_def Let_def is_hex_def)
  show ?thesis unfolding py_int_def 1 2 by (simp add: 3 4 digits_val_def)
qed

lemma digits_val_bound:
  "\<forall>c\<in>set ds. digit_value c < 16 \<Longrightarrow> 0 \<le> digits_val 16 ds \<and> digits_val 16 ds < 16 ^ length ds"
proof (induction ds rule: rev_induct)
  case Nil
  then show ?case by (simp add: digits_val_def)
next
  case (snoc c ds)
  then have ih: "0 \<le> digits_val 16 ds" "digits_val 16 ds < 16 ^ length ds"
    and c: "digit_value c < 16" by simp_all
  have eq: "digits_val 16 (ds @ [c]) = digits_val 16 ds * 16 + int (digit_value c)"
    by (simp add: digits_val_def)
  from ih(2) have "digits_val 16 ds + 1 \<le> 16 ^ length ds" by simp
  then have "(digits_val 16 ds + 1) * 16 \<le> 16 ^ length ds * 16"
    by (rule mult_right_mono) simp
  moreover have "int (digit_value c) < 16" using c by simp
  ultimately have "digits_val 16 ds * 16 + int (digit_value c) < 16 ^ length ds * 16"
    by (simp add: algebra_simps)
  with ih(1) show ?case unfolding eq by simp
qed

lemma int_sign_rest_length: "length (snd (int_sign_rest s)) \<le> length s"
  by (simp add: int_sign_rest_def)

lemma int_skip_prefix_length: "length (int_skip_prefix b s) \<le> length s"
  by (simp add: int_skip_prefix_def Let_def)

lemma int_digits_Some:
  assumes "int_digits b s = Some ds"
  shows "length ds \<le> length s" "\<forall>c\<in>set ds. digit_value c < b"
proof -
  have ds: "ds = filter (\<lambda>c. c \<noteq> CHR ''_'') (takeWhile (\<lambda>c. digit_value c < b \<or> c = CHR ''_'') s)"
    using assms unfolding int_digits_def Let_def by (simp split: if_splits)
  show "length ds \<le> length s" unfolding ds
    by (rule order_trans [OF length_filter_le length_takeWhile_le])
  show "\<forall>c\<in>set ds. digit_value c < b"
    unfolding ds by (auto dest: set_takeWhileD)
qed

lemma py_int16_short:
  assumes "py_int 16 t = Some v" "length t \<le> 2"
  shows "\<bar>v\<bar> < 256"
proof -
  obtain neg s2 where sr: "int_sign_rest (dropWhile int_space t) = (neg, s2)"
    by (cases "int_sign_rest (dropWhile int_space t)")
  from assms(1) obtain ds where ds: "int_digits 16 (int_skip_prefix 16 s2) = Some ds"
    and v: "v = (if neg then - 1 else 1) * digits_val 16 ds"
    by (auto simp: py_int_def sr split: option.splits)
  have "length s2 \<le> length (dropWhile int_space t)"
    using int_sign_rest_length [of "dropWhile int_space t"] by (simp add: sr)
  also have "\<dots> \<le> length t" by (rule length_dropWhile_le)
  finally have l2: "length s2 \<le> 2" using assms(2) by simp
  have len: "length ds \<le> 2"
    using int_digits_Some(1) [OF ds] int_skip_prefix_length [of 16 s2] l2 by linarith
  have "(16::int) ^ length ds \<le> 16 ^ 2" using len by (intro power_increasing) simp_all
  with digits_val_bound [OF int_digits_Some(2) [OF ds]] v show ?thesis by (auto split: if_splits)
qed

lemma length_dec_le: "length (dec n) \<le> n + 1"
proof (induction n rule: dec.induct)
  case (1 n)
  show ?case
  proof (cases "n < 10")
    case True
    then show ?thesis by (simp add: dec.simps [of n])
  next
    case False
    with 1 have "length (dec (n div 10)) \<le> n div 10 + 1" by simp
    with False show ?thesis by (simp add: dec.simps [of n])
  qed
qed

lemma py_str_small: "n \<le> 4000 \<Longrightarrow> py_str (int n) = Some (dec n)"
  using length_dec_le [of n] by (simp add: py_str_def Let_def int_max_str_digits_def)

lemma py_str_small_int: "\<bar>i\<bar> \<le> 4000 \<Longrightarrow> py_str i \<noteq> None"
  using length_dec_le [of "nat \<bar>i\<bar>"] by (simp add: py_str_def Let_def int_max_str_digits_def)

lemma hexset_is_hex: "in_hex_upper c \<Longrightarrow> is_hex c"
  unfolding in_hex_upper_def by (auto simp: is_hex_def digit_value_def py_ord_def)

lemma clean_hex_all_hex: "list_all is_hex (clean_hex v)"
  unfolding clean_hex_def list_all_iff by (simp add: hexset_is_hex)

lemma no_double_underscore: "\<forall>x\<in>set xs. x \<noteq> CHR ''_'' \<Longrightarrow> \<not> double_underscore xs"
proof (induction xs rule: double_underscore.induct)
  case (1 a b cs)
  then show ?case by simp
qed simp_all

lemma py_int_hex_digits:
  assumes "list_all is_hex ds" "ds \<noteq> []"
  shows "py_int 16 ds = Some (digits_val 16 ds)"
proof -
  from assms obtain c cs where ds: "ds = c # cs" by (cases ds) auto
  have all: "\<forall>x\<in>set ds. is_hex x" using assms(1) by (simp add: list_all_iff)
  then have c: "is_hex c" by (simp add: ds)
  have 1: "dropWhile int_space ds = ds"
    using hex_not_special(1) [OF c] by (simp add: ds)
  have 2: "int_sign_rest ds = (False, ds)"
    using hex_not_special [OF c] by (simp add: int_sign_rest_def ds)
  have 3: "int_skip_prefix 16 ds = ds"
  proof (cases cs)
    case Nil
    then show ?thesis by (simp add: int_skip_prefix_def ds)
  next
    case (Cons d es)
    with all have "is_hex d" by (simp add: ds)
    from hex_not_special [OF this] show ?thesis by (simp add: int_skip_prefix_def ds Cons)
  qed
  have nu: "\<forall>x\<in>set ds. x \<noteq> CHR ''_''" using all hex_not_special(4) by blast
  have tw: "takeWhile (\<lambda>c. digit_value c < 16 \<or> c = CHR ''_'') ds = ds"
    using all by (intro takeWhile_eq_all_conv [THEN iffD2]) (simp add: is_hex_def)
  have dw: "dropWhile (\<lambda>c. digit_value c < 16 \<or> c = CHR ''_'') ds = []"
    using all by (simp add: is_hex_def)
  have fl: "filter (\<lambda>c. c \<noteq> CHR ''_'') ds = ds"
    using nu by (intro filter_True) simp
  have "hd ds \<noteq> CHR ''_''" "last ds \<noteq> CHR ''_''"
    using nu assms(2) hd_in_set [of ds] last_in_set [of ds] by blast+
  then have 4: "int_digits 16 ds = Some ds"
    unfolding int_digits_def Let_def tw dw fl
    using assms(2) no_double_underscore [OF nu] by simp
  show ?thesis unfolding py_int_def 1 2 by (simp add: 3 4)
qed

lemma length_dec_pow: "n < 10 ^ k \<Longrightarrow> 0 < k \<Longrightarrow> length (dec n) \<le> k"
proof (induction n arbitrary: k rule: dec.induct)
  case (1 n)
  show ?case
  proof (cases "n < 10")
    case True
    with 1(3) show ?thesis by (simp add: dec.simps [of n])
  next
    case False
    from 1(3) obtain j where k: "k = Suc j" by (cases k) auto
    have "j \<noteq> 0"
    proof
      assume "j = 0"
      with 1(2) k have "n < 10" by simp
      with False show False by simp
    qed
    moreover have "n div 10 < 10 ^ j" using 1(2) by (simp add: k less_mult_imp_div_less)
    ultimately have "length (dec (n div 10)) \<le> j" using 1(1) [of j] False by simp
    with False show ?thesis by (simp add: dec.simps [of n] k)
  qed
qed

lemma py_str_nat:
  assumes "n < 10 ^ k" "0 < k" "k \<le> 4300"
  shows "py_str (int n) = Some (dec n)"
proof -
  have "length (dec n) \<le> k" using assms(1,2) by (rule length_dec_pow)
  with assms(3) have "\<not> length (dec n) > int_max_str_digits"
    unfolding int_max_str_digits_def by linarith
  then show ?thesis unfolding py_str_def Let_def by simp
qed

lemma dec_numeral:
  "dec (numeral k) =
     (if (numeral k :: nat) < 10 then [digit_char (numeral k)]
      else dec (numeral k div 10) @ [digit_char (numeral k mod 10)])"
  by (rule dec.simps)

lemma dec_0: "dec 0 = ''0''" and dec_1: "dec 1 = ''1''"
  by (simp_all add: dec.simps [of 0] dec.simps [of "Suc 0"] digit_char_def)

lemmas dec_eval = dec_numeral dec_0 dec_1 digit_char_def

lemma push8_or_int:
  fixes x y :: int
  assumes "0 \<le> y" "y < 256"
  shows "push_bit 8 x OR y = 256 * x + y"
proof -
  have y: "y = take_bit 8 y" using assms by (simp add: take_bit_int_eq_self)
  have "push_bit 8 x AND take_bit 8 y = 0"
    by (rule bit_eqI) (auto simp: bit_simps)
  then have "push_bit 8 x AND y = 0" using y by simp
  then have "push_bit 8 x + y = push_bit 8 x OR y" by (rule disjunctive_add_eq_or)
  then show ?thesis by (simp add: push_bit_eq_mult)
qed

lemma push8_or_nat:
  fixes x y :: nat
  assumes "y < 256"
  shows "push_bit 8 x OR y = 256 * x + y"
proof -
  have y: "y = take_bit 8 y" using assms by (simp add: take_bit_nat_eq_self)
  have "push_bit 8 x AND take_bit 8 y = 0"
    by (rule bit_eqI) (auto simp: bit_simps)
  then have "push_bit 8 x AND y = 0" using y by simp
  then have "push_bit 8 x + y = push_bit 8 x OR y" by (rule disjunctive_add_eq_or)
  then show ?thesis by (simp add: push_bit_eq_mult)
qed

lemma sint16_of_int:
  fixes r :: int
  assumes "0 \<le> r" "r < 65536"
  shows "sint (word_of_int r :: 16 word) = (if r > 32767 then r - 65536 else r)"
proof (cases "r > 32767")
  case True
  have "r + 32768 = r - 32768 + 1 * 65536" by simp
  then have "(r + 32768) mod 65536 = (r - 32768 + 1 * 65536) mod 65536" by (rule arg_cong)
  also have "\<dots> = (r - 32768) mod 65536" by (rule mod_mult_self1)
  also have "\<dots> = r - 32768" using True assms by (intro mod_pos_pos_trivial) simp_all
  finally show ?thesis using True by (simp add: int_word_sint)
next
  case False
  then have "(r + 32768) mod 65536 = r + 32768" using assms by (intro mod_pos_pos_trivial) simp_all
  then show ?thesis using False by (simp add: int_word_sint)
qed

section \<open>Properties of hex\_to\_obis\<close>

lemma those_None_iff: "those xs = None \<longleftrightarrow> list_ex (\<lambda>x. x = None) xs"
  by (induction xs) (auto split: option.splits)

lemma those_map_None_iff: "those (map f xs) = None \<longleftrightarrow> list_ex (\<lambda>x. f x = None) xs"
  by (induction xs) (auto split: option.splits)

lemma those_Some_map: "those xs = Some ys \<Longrightarrow> xs = map Some ys"
  by (induction xs arbitrary: ys) (auto split: option.splits)

lemma unat_mk_byte: "hi < 16 \<Longrightarrow> lo < 16 \<Longrightarrow> unat (mk_byte hi lo) = hi * 16 + lo"
  unfolding mk_byte_def unat_of_nat by simp

lemma list12:
  assumes "length t = 12"
  obtains c0 c1 c2 c3 c4 c5 c6 c7 c8 c9 c10 c11 where
    "t = [c0, c1, c2, c3, c4, c5, c6, c7, c8, c9, c10, c11]"
  using assms by (auto simp: eval_nat_numeral length_Suc_conv)

lemma hex_to_obis_hex:
  assumes len: "length t = 12" and hex: "list_all is_hex t"
  shows "\<exists>bs. unhexlify t = Some bs \<and> length bs = 6
     \<and> hex_to_obis t = Inr (join ''.'' (map (\<lambda>b. dec (unat b)) bs))"
proof -
  from len obtain c0 c1 c2 c3 c4 c5 c6 c7 c8 c9 c10 c11 where
    t: "t = [c0, c1, c2, c3, c4, c5, c6, c7, c8, c9, c10, c11]" by (rule list12)
  from hex have h: "is_hex c0" "is_hex c1" "is_hex c2" "is_hex c3" "is_hex c4" "is_hex c5"
     "is_hex c6" "is_hex c7" "is_hex c8" "is_hex c9" "is_hex c10" "is_hex c11"
    by (simp_all add: t)
  have pp: "py_str (int (digit_value c) * 16 + int (digit_value d)) = Some (dec (digit_value c * 16 + digit_value d))"
    if "is_hex c" "is_hex d" for c d
    using py_str_small [of "digit_value c * 16 + digit_value d"] that by (simp add: is_hex_def)
  have u: "unhexlify t = Some [mk_byte (digit_value c0) (digit_value c1),
       mk_byte (digit_value c2) (digit_value c3), mk_byte (digit_value c4) (digit_value c5),
       mk_byte (digit_value c6) (digit_value c7), mk_byte (digit_value c8) (digit_value c9),
       mk_byte (digit_value c10) (digit_value c11)]"
    using h by (simp add: t)
  have ints: "those (map (\<lambda>i. py_int 16 (take 2 (drop i t))) [0, 2, 4, 6, 8, 10])
     = Some [int (digit_value c0 * 16 + digit_value c1), int (digit_value c2 * 16 + digit_value c3),
         int (digit_value c4 * 16 + digit_value c5), int (digit_value c6 * 16 + digit_value c7),
         int (digit_value c8 * 16 + digit_value c9), int (digit_value c10 * 16 + digit_value c11)]"
    using h by (simp add: t py_int_hex_pair)
  have ob: "hex_to_obis t = Inr (join ''.'' [dec (digit_value c0 * 16 + digit_value c1), dec (digit_value c2 * 16 + digit_value c3),
         dec (digit_value c4 * 16 + digit_value c5), dec (digit_value c6 * 16 + digit_value c7),
         dec (digit_value c8 * 16 + digit_value c9), dec (digit_value c10 * 16 + digit_value c11)])"
    unfolding hex_to_obis_def ints using len h by (simp add: pp)
  have un: "unat (mk_byte (digit_value c) (digit_value d)) = digit_value c * 16 + digit_value d"
    if "is_hex c" "is_hex d" for c d
    using that by (simp add: unat_mk_byte is_hex_def)
  show ?thesis unfolding u ob using h by (simp add: un)
qed

lemma hex_to_obis_raises:
  "hex_to_obis u = Inl e \<longleftrightarrow>
     e = ValueError \<and> length u = 12
     \<and> list_ex (\<lambda>i. py_int 16 (take 2 (drop i u)) = None) [0, 2, 4, 6, 8, 10]"
proof (cases "length u = 12")
  case False
  then show ?thesis by (simp add: hex_to_obis_def)
next
  case True
  let ?ps = "map (\<lambda>i. py_int 16 (take 2 (drop i u))) [0, 2, 4, 6, 8, 10]"
  show ?thesis
  proof (cases "those ?ps")
    case None
    then have "list_ex (\<lambda>i. py_int 16 (take 2 (drop i u)) = None) [0, 2, 4, 6, 8, 10]"
      by (simp only: those_map_None_iff)
    moreover have "hex_to_obis u = Inl ValueError"
      unfolding hex_to_obis_def None using True by simp
    ultimately show ?thesis using True by auto
  next
    case (Some parts)
    then have ps: "?ps = map Some parts" by (rule those_Some_map)
    have "\<bar>v\<bar> < 256" if "v \<in> set parts" for v
    proof -
      from that have "Some v \<in> set ?ps" unfolding ps by simp
      then obtain i where "Some v = py_int 16 (take 2 (drop i u))"
        unfolding set_map by (rule imageE)
      then have "py_int 16 (take 2 (drop i u)) = Some v" by simp
      then show ?thesis by (rule py_int16_short) simp
    qed
    then have "py_str v \<noteq> None" if "v \<in> set parts" for v
      using that by (intro py_str_small_int) fastforce
    then have "\<not> list_ex (\<lambda>x. x = None) (map py_str parts)"
      unfolding list_ex_iff set_map by blast
    then obtain strs where strs: "those (map py_str parts) = Some strs"
      unfolding those_None_iff [symmetric] by auto
    have "hex_to_obis u = Inr (join ''.'' strs)"
      unfolding hex_to_obis_def Some using True by (simp add: strs)
    moreover have "\<not> list_ex (\<lambda>i. py_int 16 (take 2 (drop i u)) = None) [0, 2, 4, 6, 8, 10]"
      using Some by (simp only: those_map_None_iff [symmetric]) simp
    ultimately show ?thesis by simp
  qed
qed

text \<open>
  C6.  \<open>hex_to_obis\<close> returns its input unchanged when the length is not 12, and on a
  string of 12 hexadecimal digits it returns the six bytes in dotted decimal, each
  component the value of a byte (0 to 255): so far the function does what C6 says.
  The third part of C6, that no input makes it raise, fails: the function has no handler
  for the ValueError of \<open>int(pair, 16)\<close>, and the last conjunct gives the inputs on which
  the exception leaves it, the 12-character strings one of whose six pairs
  \<open>int(pair, 16)\<close> rejects.
\<close>

theorem hex_to_obis_spec:
  "(length s \<noteq> 12 \<longrightarrow> hex_to_obis s = Inr s)
   \<and> (length t = 12 \<and> list_all is_hex t \<longrightarrow>
        (\<exists>bs. unhexlify t = Some bs \<and> length bs = 6
           \<and> hex_to_obis t = Inr (join ''.'' (map (\<lambda>b. dec (unat b)) bs))))
   \<and> (hex_to_obis u = Inl e \<longleftrightarrow>
        e = ValueError \<and> length u = 12
        \<and> list_ex (\<lambda>i. py_int 16 (take 2 (drop i u)) = None) [0, 2, 4, 6, 8, 10])"
proof (intro conjI impI)
  assume "length s \<noteq> 12"
  then show "hex_to_obis s = Inr s" by (simp add: hex_to_obis_def)
next
  assume "length t = 12 \<and> list_all is_hex t"
  then show "\<exists>bs. unhexlify t = Some bs \<and> length bs = 6
           \<and> hex_to_obis t = Inr (join ''.'' (map (\<lambda>b. dec (unat b)) bs))"
    by (intro hex_to_obis_hex) simp_all
next
  show "hex_to_obis u = Inl e \<longleftrightarrow>
        e = ValueError \<and> length u = 12
        \<and> list_ex (\<lambda>i. py_int 16 (take 2 (drop i u)) = None) [0, 2, 4, 6, 8, 10]"
    by (rule hex_to_obis_raises)
qed

theorem hex_to_obis_spec_witness:
  "hex_to_obis ''abc'' = Inr ''abc''
   \<and> hex_to_obis ''0000190900FF'' = Inr ''0.0.25.9.0.255''
   \<and> hex_to_obis ''0000190900FG'' = Inl ValueError"
proof -
  note w = hex_to_obis_spec [of "''abc''" "''0000190900FF''" "''0000190900FG''" ValueError]
  have 1: "hex_to_obis ''abc'' = Inr ''abc''" using w by simp
  have h: "list_all is_hex ''0000190900FF''" by code_simp
  have u: "unhexlify ''0000190900FF'' = Some [0, 0, 25, 9, 0, 255]" by code_simp
  have d: "join ''.'' (map (\<lambda>b. dec (unat b)) [0, 0, 25, 9, 0, 255 :: byte]) = ''0.0.25.9.0.255''"
    by code_simp
  have 2: "hex_to_obis ''0000190900FF'' = Inr ''0.0.25.9.0.255''"
  proof -
    have "length ''0000190900FF'' = 12 \<and> list_all is_hex ''0000190900FF''"
      using h by simp
    with w obtain bs where b: "unhexlify ''0000190900FF'' = Some bs"
      and r: "hex_to_obis ''0000190900FF'' = Inr (join ''.'' (map (\<lambda>b. dec (unat b)) bs))"
      by blast
    from b have "bs = [0, 0, 25, 9, 0, 255]" unfolding u by simp
    with r show ?thesis by (simp only: d)
  qed
  have n: "py_int 16 ''FG'' = None" by code_simp
  have 3: "hex_to_obis ''0000190900FG'' = Inl ValueError"
  proof -
    have "list_ex (\<lambda>i. py_int 16 (take 2 (drop i ''0000190900FG'')) = None) [0, 2, 4, 6, 8, 10]"
      by (simp add: n)
    with w show ?thesis by simp
  qed
  from 1 2 3 show ?thesis by simp
qed

text \<open>
  C6 says that \<open>hex_to_obis\<close> never raises, also on 12-character strings with
  characters that are no hexadecimal digits, and hands such a string back unchanged.  On
  twelve letters Z the function raises ValueError.
\<close>

theorem hex_to_obis_raises_counterexample:
  "length ''ZZZZZZZZZZZZ'' = 12 \<and> hex_to_obis ''ZZZZZZZZZZZZ'' = Inl ValueError"
  by code_simp

section \<open>Properties of the LongInvokeIdAndPriority decoding\<close>

lemma in_hex_upper_ord:
  "in_hex_upper c \<Longrightarrow> (48 \<le> py_ord c \<and> py_ord c \<le> 57) \<or> (65 \<le> py_ord c \<and> py_ord c \<le> 70)"
  unfolding in_hex_upper_def by (auto simp: py_ord_def)

lemma space_not_hex_upper: "str_space c \<Longrightarrow> \<not> in_hex_upper (py_upper c)"
proof
  assume s: "str_space c" and h: "in_hex_upper (py_upper c)"
  from s have "py_upper c = c" by (auto simp: str_space_def py_isspace_def py_upper_def)
  with h have "in_hex_upper c" by simp
  from in_hex_upper_ord [OF this] s show False
    by (auto simp: str_space_def py_isspace_def)
qed

lemma filter_map_dropWhile:
  "(\<And>x. Q x \<Longrightarrow> \<not> P (f x)) \<Longrightarrow> filter P (map f (dropWhile Q xs)) = filter P (map f xs)"
  by (induction xs) auto

lemma clean_hex_strip: "clean_hex (py_strip v) = clean_hex v"
proof -
  let ?w = "dropWhile str_space v"
  have "clean_hex (py_strip v) = rev (filter in_hex_upper (map py_upper (dropWhile str_space (rev ?w))))"
    by (simp add: clean_hex_def py_strip_def rev_map rev_filter)
  also have "\<dots> = rev (filter in_hex_upper (map py_upper (rev ?w)))"
    by (simp add: filter_map_dropWhile space_not_hex_upper)
  also have "\<dots> = filter in_hex_upper (map py_upper ?w)"
    by (simp add: rev_map rev_filter)
  also have "\<dots> = clean_hex v"
    by (simp add: clean_hex_def filter_map_dropWhile space_not_hex_upper)
  finally show ?thesis .
qed

lemma long_invoke_parts:
  assumes len: "8 \<le> length (clean_hex v)"
  shows "py_int 16 (drop 2 (clean_hex v)) = Some (digits_val 16 (drop 2 (clean_hex v)))"
    and "0 \<le> digits_val 16 (drop 2 (clean_hex v))"
    and "enhance_long_invoke v =
          (case py_str (digits_val 16 (drop 2 (clean_hex v))) of
             None \<Rightarrow> Inl ValueError
           | Some d \<Rightarrow>
               Inr ['' '' @ fst (priority_comments (take 2 (clean_hex v))) @ '' '',
                    '' '' @ snd (priority_comments (take 2 (clean_hex v))) @ '' '',
                    '' Invoke ID: '' @ d @ '' ''])"
    and "length (clean_hex v) = 8 \<Longrightarrow>
           length (drop 2 (clean_hex v)) = 6
           \<and> py_str (digits_val 16 (drop 2 (clean_hex v)))
               = Some (dec (nat (digits_val 16 (drop 2 (clean_hex v)))))"
    and "extract_long_invoke v =
           \<lparr>invoke_id = Some (drop 2 (clean_hex v)), high_byte = Some (take 2 (clean_hex v)),
            has_long_invoke = True\<rparr>"
proof -
  let ?c = "clean_hex v"
  let ?r = "drop 2 ?c"
  have hexr: "list_all is_hex ?r"
    using clean_hex_all_hex [of v] by (auto simp: list_all_iff dest: in_set_dropD)
  have ne: "?r \<noteq> []" using len by simp
  show int: "py_int 16 ?r = Some (digits_val 16 ?r)"
    using hexr ne by (rule py_int_hex_digits)
  have dig: "\<forall>c\<in>set ?r. digit_value c < 16"
    using hexr by (simp add: list_all_iff is_hex_def)
  show nonneg: "0 \<le> digits_val 16 ?r"
    using digits_val_bound [OF dig] by simp
  have vne: "v \<noteq> []" using len by (auto simp: clean_hex_def)
  have cne: "?c \<noteq> []" using len by auto
  show "enhance_long_invoke v =
          (case py_str (digits_val 16 ?r) of
             None \<Rightarrow> Inl ValueError
           | Some d \<Rightarrow>
               Inr ['' '' @ fst (priority_comments (take 2 ?c)) @ '' '',
                    '' '' @ snd (priority_comments (take 2 ?c)) @ '' '',
                    '' Invoke ID: '' @ d @ '' ''])"
    unfolding enhance_long_invoke_def Let_def int
    using vne cne len by (simp add: case_prod_beta split: option.splits)
  show "length ?c = 8 \<Longrightarrow>
           length ?r = 6 \<and> py_str (digits_val 16 ?r) = Some (dec (nat (digits_val 16 ?r)))"
  proof -
    assume l8: "length ?c = 8"
    then have l6: "length ?r = 6" by simp
    have "digits_val 16 ?r < 16 ^ 6" using digits_val_bound [OF dig] l6 by simp
    also have "\<dots> < (10::int) ^ 8" by simp
    finally have "nat (digits_val 16 ?r) < 10 ^ 8" using nonneg by (simp add: nat_less_iff)
    then have "py_str (int (nat (digits_val 16 ?r))) = Some (dec (nat (digits_val 16 ?r)))"
      by (rule py_str_nat) simp_all
    with nonneg l6 show ?thesis by simp
  qed
  have sne: "py_strip v \<noteq> []"
  proof
    assume "py_strip v = []"
    then have "clean_hex (py_strip v) = []" by (simp add: clean_hex_def)
    with cne show False by (simp add: clean_hex_strip)
  qed
  show "extract_long_invoke v =
           \<lparr>invoke_id = Some ?r, high_byte = Some (take 2 ?c), has_long_invoke = True\<rparr>"
    unfolding extract_long_invoke_def Let_def clean_hex_strip
    using sne cne len by simp
qed

text \<open>
  C8 (as the code has it).  For a \<open>LongInvokeIdAndPriority\<close> value with at least 8
  hexadecimal characters left after cleaning: the first two are the high byte, and all
  the characters after them (six of them when the value has exactly eight) are read as
  one unsigned hexadecimal integer, the invoke-id.  The high byte 40 gives normal
  priority and confirmed service, 80 high priority and non-confirmed service, C0 high
  priority and confirmed service, anything else an unknown service type.
  \<open>enhance_xml_element\<close> appends the two descriptions and the decimal invoke-id as
  comments; \<open>extract_dlms_request_info\<close> stores the characters after the high byte
  and the high byte.
\<close>

theorem long_invoke_id_and_priority:
  "8 \<le> length (clean_hex v) \<Longrightarrow>
     py_int 16 (drop 2 (clean_hex v)) = Some (digits_val 16 (drop 2 (clean_hex v)))
     \<and> 0 \<le> digits_val 16 (drop 2 (clean_hex v))
     \<and> enhance_long_invoke v =
          (case py_str (digits_val 16 (drop 2 (clean_hex v))) of
             None \<Rightarrow> Inl ValueError
           | Some d \<Rightarrow>
               Inr ['' '' @ fst (priority_comments (take 2 (clean_hex v))) @ '' '',
                    '' '' @ snd (priority_comments (take 2 (clean_hex v))) @ '' '',
                    '' Invoke ID: '' @ d @ '' ''])
     \<and> (length (clean_hex v) = 8 \<longrightarrow>
           length (drop 2 (clean_hex v)) = 6
           \<and> py_str (digits_val 16 (drop 2 (clean_hex v)))
               = Some (dec (nat (digits_val 16 (drop 2 (clean_hex v))))))
     \<and> extract_long_invoke v =
           \<lparr>invoke_id = Some (drop 2 (clean_hex v)), high_byte = Some (take 2 (clean_hex v)),
            has_long_invoke = True\<rparr>
     \<and> priority_comments ''40'' = (''Normal priority.'', ''Confirmed service.'')
     \<and> priority_comments ''80'' = (''High priority.'', ''Non-confirmed service.'')
     \<and> priority_comments ''C0'' = (''High priority.'', ''Confirmed service.'')
     \<and> (hb \<noteq> ''40'' \<and> hb \<noteq> ''80'' \<and> hb \<noteq> ''C0'' \<longrightarrow>
           priority_comments hb = (''Priority byte: 0x'' @ hb, ''Service type unknown.''))"
proof -
  assume len: "8 \<le> length (clean_hex v)"
  have p: "priority_comments ''40'' = (''Normal priority.'', ''Confirmed service.'')"
    "priority_comments ''80'' = (''High priority.'', ''Non-confirmed service.'')"
    "priority_comments ''C0'' = (''High priority.'', ''Confirmed service.'')"
    "hb \<noteq> ''40'' \<and> hb \<noteq> ''80'' \<and> hb \<noteq> ''C0'' \<longrightarrow>
           priority_comments hb = (''Priority byte: 0x'' @ hb, ''Service type unknown.'')"
    by (simp_all add: priority_comments_def)
  show ?thesis
    using long_invoke_parts [OF len] p by blast
qed

theorem long_invoke_id_and_priority_witness:
  "8 \<le> length (clean_hex ''C000001A'')
   \<and> enhance_long_invoke ''C000001A''
        = Inr ['' High priority. '', '' Confirmed service. '', '' Invoke ID: 26 '']
   \<and> extract_long_invoke ''C000001A''
        = \<lparr>invoke_id = Some ''00001A'', high_byte = Some ''C0'', has_long_invoke = True\<rparr>"
proof -
  have c: "clean_hex ''C000001A'' = ''C000001A''" by code_simp
  have len: "8 \<le> length (clean_hex ''C000001A'')" by (simp add: c)
  have d: "digits_val 16 ''00001A'' = 26" by code_simp
  have s: "py_str 26 = Some ''26''"
    by (simp add: py_str_def Let_def int_max_str_digits_def dec_eval)
  note w = long_invoke_id_and_priority [OF len, of "''C0''"]
  from w have "enhance_long_invoke ''C000001A''
        = Inr ['' High priority. '', '' Confirmed service. '', '' Invoke ID: 26 '']"
    by (simp add: c d s)
  moreover from w have "extract_long_invoke ''C000001A''
        = \<lparr>invoke_id = Some ''00001A'', high_byte = Some ''C0'', has_long_invoke = True\<rparr>"
    by (simp add: c)
  ultimately show ?thesis using len by simp
qed

text \<open>
  C8 as stated reads "the remaining 6 hex characters" as the invoke-id for every value
  with at least 8 hexadecimal characters.  The value C01000001A has ten: the code reads
  all eight characters after the high byte (268435482), which is neither the first six
  of them (1048576) nor the last six (26).
\<close>

theorem long_invoke_six_characters_counterexample:
  "8 \<le> length (clean_hex ''C01000001A'')
   \<and> enhance_long_invoke ''C01000001A''
        = Inr ['' High priority. '', '' Confirmed service. '', '' Invoke ID: 268435482 '']
   \<and> py_int 16 (take 6 (drop 2 (clean_hex ''C01000001A''))) = Some 1048576
   \<and> py_int 16 (drop 4 (clean_hex ''C01000001A'')) = Some 26"
proof -
  have c: "clean_hex ''C01000001A'' = ''C01000001A''" by code_simp
  have i: "py_int 16 ''1000001A'' = Some 268435482" by code_simp
  have s: "py_str 268435482 = Some ''268435482''"
    by (simp add: py_str_def Let_def int_max_str_digits_def dec_eval)
  have e: "enhance_long_invoke ''C01000001A''
        = Inr ['' High priority. '', '' Confirmed service. '', '' Invoke ID: 268435482 '']"
    by (simp add: enhance_long_invoke_def c i s priority_comments_def)
  have f: "py_int 16 ''100000'' = Some 1048576" by code_simp
  have l: "py_int 16 ''00001A'' = Some 26" by code_simp
  show ?thesis by (simp add: c e f l)
qed

section \<open>Properties of try\_decode\_dlms\_datetime\<close>

lemma dec_Suc_0: "dec (Suc 0) = ''1''"
  by (simp add: dec.simps [of "Suc 0"] digit_char_def)

lemma unhexlify_hex:
  "list_all is_hex s \<Longrightarrow> even (length s) \<Longrightarrow>
     \<exists>data. unhexlify s = Some data \<and> 2 * length data = length s"
proof (induction s rule: unhexlify.induct)
  case 1
  then show ?case by simp
next
  case (2 c)
  then show ?case by simp
next
  case (3 c d cs)
  then obtain data where "unhexlify cs = Some data" "2 * length data = length cs" by auto
  with 3(2) show ?case by simp
qed

lemma unhexlify_not_hex: "\<not> list_all is_hex s \<Longrightarrow> unhexlify s = None"
  by (induction s rule: unhexlify.induct) (auto split: option.splits)

lemma dev_raw_eq:
  "push_bit 8 (uint (a::byte)) OR uint (b::byte) = 256 * uint a + uint b"
  by (rule push8_or_int) (use uint_lt2p [of b] in simp_all)

lemma dev_raw_range: "0 \<le> 256 * uint (a::byte) + uint (b::byte)" "256 * uint (a::byte) + uint (b::byte) < 65536"
  using uint_lt2p [of a] uint_lt2p [of b] by simp_all

lemma uint16_of_int:
  fixes r :: int
  assumes "0 \<le> r" "r < 65536"
  shows "uint (word_of_int r :: 16 word) = r"
  using assms by (simp add: uint_word_of_int take_bit_int_eq_self)

lemma utc_suffix_offset_text: "utc_suffix data = offset_text data"
proof (cases "length data \<ge> 11")
  case False
  then show ?thesis by (simp add: utc_suffix_def offset_text_def)
next
  case True
  define r where "r = 256 * uint (data ! 9) + uint (data ! 10)"
  have r: "0 \<le> r" "r < 65536" unfolding r_def by (rule dev_raw_range)+
  have w: "deviation_word data = word_of_int r" by (simp only: deviation_word_def r_def)
  have s: "sint (deviation_word data) = (if r > 32767 then r - 65536 else r)"
    unfolding w using r by (rule sint16_of_int)
  have u: "uint (deviation_word data) = r"
    unfolding w using r by (rule uint16_of_int)
  have e1: "deviation_word data = 0x8000 \<longleftrightarrow> r = 0x8000"
    unfolding word_uint_eq_iff u by simp
  have e0: "deviation_word data = 0 \<longleftrightarrow> r = 0"
    unfolding word_uint_eq_iff u by simp
  have c: "utc_suffix data =
     (if r \<noteq> 0x8000 then
              (let dev = (if r > 32767 then r - 65536 else r)
               in if dev \<noteq> 0 then
                    (let sign = (if dev \<ge> 0 then ''+'' else ''-'');
                         total_min = nat \<bar>dev\<bar>;
                         h = total_min div 60;
                         m = total_min mod 60
                     in if m = 0 then '' UTC'' @ sign @ fmt0 2 h
                        else '' UTC'' @ sign @ fmt0 2 h @ '':'' @ fmt0 2 m)
                  else [])
            else [])"
    unfolding utc_suffix_def Let_def dev_raw_eq r_def using True by simp
  show ?thesis
  proof (cases "r = 0x8000 \<or> r = 0")
    case True
    then show ?thesis unfolding c offset_text_def e1 e0 by auto
  next
    case False
    then have nz: "(if r > 32767 then r - 65536 else r) \<noteq> 0" using r by auto
    have pos: "(0 \<le> (if r > 32767 then r - 65536 else r)) = (0 < (if r > 32767 then r - 65536 else r))"
      using nz by linarith
    show ?thesis unfolding c offset_text_def e1 e0 s Let_def
      using False nz \<open>length data \<ge> 11\<close> by (simp add: pos)
  qed
qed


lemma field_unat: "(if length data > i then unat (data ! i) else 0xFF) = unat (dt_field data i)"
  by (simp add: dt_field_def)

lemma unat_ne_255: "unat (b::byte) \<noteq> 255 \<longleftrightarrow> b \<noteq> 0xFF"
  by (simp add: word_unat_eq_iff)

lemma year_eq:
  "2 \<le> length data \<Longrightarrow> push_bit 8 (unat (data ! 0)) OR unat (data ! 1) = dt_year data"
proof -
  assume "2 \<le> length data"
  then have l: "data \<noteq> []" "Suc 0 < length data" by auto
  have "unat (data ! 1) < 256" using unsigned_less [of "data ! 1", where ?'a = nat] by simp
  then show ?thesis using l by (simp add: push8_or_nat dt_year_def dt_field_def)
qed

lemma try_decode_data:
  assumes u: "unhexlify s = Some data" and len: "10 \<le> length s" "length s \<le> 24" "even (length s)"
    and l5: "5 \<le> length data"
  shows "try_decode_dlms_datetime s =
           (if full_date data \<or> full_time data then Some (datetime_text data) else None)"
proof -
  have y: "push_bit 8 (unat (data ! 0)) OR unat (data ! 1) = dt_year data"
    using l5 by (intro year_eq) simp
  have m: "data ! 2 = dt_field data 2" "data ! 3 = dt_field data 3"
    using l5 by (simp_all add: dt_field_def)
  have c: "\<not> (length s < 10 \<or> length s > 24 \<or> length s mod 2 \<noteq> 0)"
    using len by presburger
  show ?thesis
    unfolding try_decode_dlms_datetime_def u option.case if_not_P [OF c] Let_def y m field_unat
      unat_ne_255 utc_suffix_offset_text
    using l5
    by (simp add: full_date_def full_time_def datetime_text_def date_text_def time_text_def)
qed

text \<open>
  C5.  \<open>try_decode_dlms_datetime\<close> returns \<open>None\<close> for every string of odd length
  or of length below 10 or above 24 (and for every string with a character that is no
  hexadecimal digit).  For a hexadecimal string in range, with \<open>data\<close> its decoded bytes,
  it returns \<open>None\<close> when \<open>data\<close> has neither a full date (year not 0xFFFF, month and
  day not 0xFF) nor a full time (hour, minute, second not 0xFF); otherwise it returns
  the date part and/or the time part, joined by a space, each only when fully specified,
  followed, when at least 11 bytes are present and the big-endian deviation word is
  neither 0x8000 nor zero, by the UTC suffix with "+" for positive signed minutes and
  "-" for negative ones.
\<close>

theorem try_decode_dlms_datetime_spec:
  "(odd (length s) \<or> length s < 10 \<or> 24 < length s \<longrightarrow> try_decode_dlms_datetime s = None)
   \<and> (\<not> list_all is_hex s \<longrightarrow> try_decode_dlms_datetime s = None)
   \<and> (list_all is_hex s \<and> even (length s) \<and> 10 \<le> length s \<and> length s \<le> 24 \<longrightarrow>
        (\<exists>data. unhexlify s = Some data \<and> 2 * length data = length s
           \<and> try_decode_dlms_datetime s =
               (if full_date data \<or> full_time data then Some (datetime_text data) else None)))"
proof (intro conjI impI)
  assume "odd (length s) \<or> length s < 10 \<or> 24 < length s"
  then have "length s < 10 \<or> length s > 24 \<or> length s mod 2 \<noteq> 0" by presburger
  then show "try_decode_dlms_datetime s = None"
    unfolding try_decode_dlms_datetime_def by (simp only: if_True)
next
  assume "\<not> list_all is_hex s"
  then have "unhexlify s = None" by (rule unhexlify_not_hex)
  then show "try_decode_dlms_datetime s = None"
    by (simp add: try_decode_dlms_datetime_def)
next
  assume a: "list_all is_hex s \<and> even (length s) \<and> 10 \<le> length s \<and> length s \<le> 24"
  then obtain data where d: "unhexlify s = Some data" "2 * length data = length s"
    using unhexlify_hex [of s] by blast
  with a have "5 \<le> length data" by linarith
  with a d have "try_decode_dlms_datetime s =
               (if full_date data \<or> full_time data then Some (datetime_text data) else None)"
    by (intro try_decode_data) simp_all
  with d show "\<exists>data. unhexlify s = Some data \<and> 2 * length data = length s
           \<and> try_decode_dlms_datetime s =
               (if full_date data \<or> full_time data then Some (datetime_text data) else None)"
    by blast
qed

theorem try_decode_dlms_datetime_spec_witness:
  "try_decode_dlms_datetime ''07EA010DFF0E2114FFFF4C00'' = Some ''2026-01-13 14:33:20 UTC-03''
   \<and> try_decode_dlms_datetime ''07EA010DFF0E211'' = None
   \<and> try_decode_dlms_datetime ''07EA010DFG'' = None
   \<and> try_decode_dlms_datetime ''FFFF01FFFFFF2114'' = None"
proof -
  let ?s = "''07EA010DFF0E2114FFFF4C00''"
  have b: "unhexlify ?s
      = Some [0x07, 0xEA, 0x01, 0x0D, 0xFF, 0x0E, 0x21, 0x14, 0xFF, 0xFF, 0x4C, 0x00]"
    by code_simp
  have t: "datetime_text [0x07, 0xEA, 0x01, 0x0D, 0xFF, 0x0E, 0x21, 0x14, 0xFF, 0xFF, 0x4C, 0x00]
      = ''2026-01-13 14:33:20 UTC-03''"
    by (simp add: datetime_text_def full_date_def full_time_def date_text_def time_text_def
        offset_text_def dt_field_def dt_year_def deviation_word_def fmt0_def dec_eval dec_Suc_0)
  have f: "full_date [0x07, 0xEA, 0x01, 0x0D, 0xFF, 0x0E, 0x21, 0x14, 0xFF, 0xFF, 0x4C, 0x00 :: byte]"
    by (simp add: full_date_def dt_field_def dt_year_def)
  have h: "list_all is_hex ?s" by code_simp
  have "list_all is_hex ?s \<and> even (length ?s) \<and> 10 \<le> length ?s \<and> length ?s \<le> 24"
    using h by simp
  with try_decode_dlms_datetime_spec [of ?s] obtain data where
    d: "unhexlify ?s = Some data"
    and r: "try_decode_dlms_datetime ?s =
               (if full_date data \<or> full_time data then Some (datetime_text data) else None)"
    by blast
  from d have "data = [0x07, 0xEA, 0x01, 0x0D, 0xFF, 0x0E, 0x21, 0x14, 0xFF, 0xFF, 0x4C, 0x00]"
    unfolding b by simp
  with r f have 1: "try_decode_dlms_datetime ?s = Some ''2026-01-13 14:33:20 UTC-03''"
    by (simp only: t if_True simp_thms)
  have 2: "try_decode_dlms_datetime ''07EA010DFF0E211'' = None"
    using try_decode_dlms_datetime_spec [of "''07EA010DFF0E211''"] by simp
  have n: "\<not> list_all is_hex ''07EA010DFG''" by code_simp
  have 3: "try_decode_dlms_datetime ''07EA010DFG'' = None"
    using try_decode_dlms_datetime_spec [of "''07EA010DFG''"] n by blast
  let ?u = "''FFFF01FFFFFF2114''"
  have bu: "unhexlify ?u = Some [0xFF, 0xFF, 0x01, 0xFF, 0xFF, 0xFF, 0x21, 0x14]" by code_simp
  have nu: "\<not> (full_date [0xFF, 0xFF, 0x01, 0xFF, 0xFF, 0xFF, 0x21, 0x14 :: byte]
               \<or> full_time [0xFF, 0xFF, 0x01, 0xFF, 0xFF, 0xFF, 0x21, 0x14 :: byte])"
    by (simp add: full_date_def full_time_def dt_field_def dt_year_def)
  have hu: "list_all is_hex ?u" by code_simp
  have "list_all is_hex ?u \<and> even (length ?u) \<and> 10 \<le> length ?u \<and> length ?u \<le> 24"
    using hu by simp
  with try_decode_dlms_datetime_spec [of ?u] obtain data' where
    d': "unhexlify ?u = Some data'"
    and r': "try_decode_dlms_datetime ?u =
               (if full_date data' \<or> full_time data' then Some (datetime_text data') else None)"
    by blast
  from d' have "data' = [0xFF, 0xFF, 0x01, 0xFF, 0xFF, 0xFF, 0x21, 0x14]" unfolding bu by simp
  with r' nu have 4: "try_decode_dlms_datetime ?u = None" by (simp only: if_False)
  from 1 2 3 4 show ?thesis by (intro conjI)
qed

section \<open>Properties of the day-push classification and validation\<close>

lemma intervals_ok_iff:
  "intervals_ok d ts \<longleftrightarrow> (\<forall>i. Suc i < length ts \<longrightarrow> instant (ts ! Suc i) - instant (ts ! i) = d)"
proof (induction d ts rule: intervals_ok.induct)
  case (1 delta a b ts)
  show ?case
  proof (cases "instant b - instant a = delta")
    case False
    then show ?thesis by auto
  next
    case True
    have "(\<forall>i. Suc i < length (a # b # ts) \<longrightarrow> instant ((a # b # ts) ! Suc i) - instant ((a # b # ts) ! i) = delta)
      \<longleftrightarrow> (\<forall>i. Suc i < length (b # ts) \<longrightarrow> instant ((b # ts) ! Suc i) - instant ((b # ts) ! i) = delta)"
      (is "?L \<longleftrightarrow> ?R")
    proof
      assume l: ?L
      show ?R
      proof (intro allI impI)
        fix i assume "Suc i < length (b # ts)"
        then have "Suc (Suc i) < length (a # b # ts)" by simp
        with l have "instant ((a # b # ts) ! Suc (Suc i)) - instant ((a # b # ts) ! Suc i) = delta"
          by blast
        then show "instant ((b # ts) ! Suc i) - instant ((b # ts) ! i) = delta" by simp
      qed
    next
      assume r: ?R
      show ?L
      proof (intro allI impI)
        fix i assume i: "Suc i < length (a # b # ts)"
        show "instant ((a # b # ts) ! Suc i) - instant ((a # b # ts) ! i) = delta"
        proof (cases i)
          case 0
          then show ?thesis using True by simp
        next
          case (Suc j)
          with i have "Suc j < length (b # ts)" by simp
          with r have "instant ((b # ts) ! Suc j) - instant ((b # ts) ! j) = delta" by blast
          then show ?thesis using Suc by simp
        qed
      qed
    qed
    with 1 True show ?thesis by simp
  qed
qed simp_all

text \<open>
  C7.  \<open>classify_day_push_entry\<close> returns "daily" exactly when the first row has
  exactly 20 values, "half_hourly" exactly when it has exactly 4, and "unknown"
  otherwise, also for an empty list of rows.  \<open>validate_day_push_intervals\<close> returns
  true for fewer than 2 rows; with at least 2 rows it returns false when a timestamp
  fails to parse (or when naive and aware timestamps are mixed, which cannot be
  sorted), and otherwise it sorts the timestamps and returns true iff every consecutive
  pair differs by exactly the expected interval: 24 hours for "daily", 30 minutes for
  "half_hourly".
\<close>

theorem day_push_classify_validate:
  "(classify_day_push_entry entry = ''daily''
      \<longleftrightarrow> entry_rows entry \<noteq> [] \<and> length (first_values entry) = 20)
   \<and> (classify_day_push_entry entry = ''half_hourly''
      \<longleftrightarrow> entry_rows entry \<noteq> [] \<and> length (first_values entry) = 4)
   \<and> (classify_day_push_entry entry = ''unknown''
      \<longleftrightarrow> entry_rows entry = []
          \<or> (length (first_values entry) \<noteq> 20 \<and> length (first_values entry) \<noteq> 4))
   \<and> expected_delta ''daily'' = 24 * 60 * 60 * 1000000
   \<and> expected_delta ''half_hourly'' = 30 * 60 * 1000000
   \<and> (length (entry_rows entry) < 2 \<longrightarrow> validate_day_push_intervals f entry p)
   \<and> (2 \<le> length (entry_rows entry)
        \<and> list_ex (\<lambda>r. f (replace_Z (get_default (row_timestamp r) [])) = None) (entry_rows entry)
       \<longrightarrow> \<not> validate_day_push_intervals f entry p)
   \<and> (2 \<le> length (entry_rows entry) \<and> parse_timestamps f (entry_rows entry) = Some ts
        \<and> \<not> (list_all is_naive ts \<or> list_all (\<lambda>t. \<not> is_naive t) ts)
       \<longrightarrow> \<not> validate_day_push_intervals f entry p)
   \<and> (2 \<le> length (entry_rows entry) \<and> parse_timestamps f (entry_rows entry) = Some ts
        \<and> (list_all is_naive ts \<or> list_all (\<lambda>t. \<not> is_naive t) ts)
       \<longrightarrow> (validate_day_push_intervals f entry p
             \<longleftrightarrow> (\<forall>i. Suc i < length ts \<longrightarrow>
                    instant (sort_key instant ts ! Suc i) - instant (sort_key instant ts ! i)
                      = expected_delta p)))"
proof (intro conjI impI)
  show "classify_day_push_entry entry = ''daily''
      \<longleftrightarrow> entry_rows entry \<noteq> [] \<and> length (first_values entry) = 20"
    by (simp add: classify_day_push_entry_def)
  show "classify_day_push_entry entry = ''half_hourly''
      \<longleftrightarrow> entry_rows entry \<noteq> [] \<and> length (first_values entry) = 4"
    by (simp add: classify_day_push_entry_def)
  show "classify_day_push_entry entry = ''unknown''
      \<longleftrightarrow> entry_rows entry = []
          \<or> (length (first_values entry) \<noteq> 20 \<and> length (first_values entry) \<noteq> 4)"
    by (simp add: classify_day_push_entry_def)
  show "expected_delta ''daily'' = 24 * 60 * 60 * 1000000"
    by (simp add: expected_delta_def)
  show "expected_delta ''half_hourly'' = 30 * 60 * 1000000"
    by (simp add: expected_delta_def)
next
  assume "length (entry_rows entry) < 2"
  then show "validate_day_push_intervals f entry p"
    by (simp add: validate_day_push_intervals_def)
next
  assume a: "2 \<le> length (entry_rows entry)
        \<and> list_ex (\<lambda>r. f (replace_Z (get_default (row_timestamp r) [])) = None) (entry_rows entry)"
  then have "parse_timestamps f (entry_rows entry) = None"
    unfolding parse_timestamps_def those_map_None_iff by simp
  with a show "\<not> validate_day_push_intervals f entry p"
    by (simp add: validate_day_push_intervals_def)
next
  assume "2 \<le> length (entry_rows entry) \<and> parse_timestamps f (entry_rows entry) = Some ts
        \<and> \<not> (list_all is_naive ts \<or> list_all (\<lambda>t. \<not> is_naive t) ts)"
  then show "\<not> validate_day_push_intervals f entry p"
    by (simp add: validate_day_push_intervals_def sort_timestamps_def)
next
  assume "2 \<le> length (entry_rows entry) \<and> parse_timestamps f (entry_rows entry) = Some ts
        \<and> (list_all is_naive ts \<or> list_all (\<lambda>t. \<not> is_naive t) ts)"
  then have "validate_day_push_intervals f entry p
      = intervals_ok (expected_delta p) (sort_key instant ts)"
    by (simp add: validate_day_push_intervals_def sort_timestamps_def)
  then show "validate_day_push_intervals f entry p
             \<longleftrightarrow> (\<forall>i. Suc i < length ts \<longrightarrow>
                    instant (sort_key instant ts ! Suc i) - instant (sort_key instant ts ! i)
                      = expected_delta p)"
    by (simp add: intervals_ok_iff)
qed

theorem day_push_classify_validate_witness:
  "classify_day_push_entry example_entry = ''half_hourly''
   \<and> validate_day_push_intervals example_parse example_entry ''half_hourly''
   \<and> \<not> validate_day_push_intervals example_parse example_entry_late ''half_hourly''
   \<and> validate_day_push_intervals example_parse \<lparr>entry_data = Some [example_row ''x'']\<rparr> ''daily''
   \<and> \<not> validate_day_push_intervals example_parse
          \<lparr>entry_data = Some [example_row ''x'', example_row ''y'']\<rparr> ''daily''"
proof -
  let ?ts = "[Aware 3600000000 10800000000, Aware 0 10800000000,
              Aware 5400000000 10800000000, Aware 1800000000 10800000000]"
  let ?tl = "[Aware 3600000000 10800000000, Aware 0 10800000000,
              Aware 5401000000 10800000000, Aware 1800000000 10800000000]"
  have rows: "entry_rows example_entry
      = [example_row ''2026-01-13T01:00:00+03:00'', example_row ''2026-01-13T00:00:00+03:00'',
         example_row ''2026-01-13T01:30:00+03:00'', example_row ''2026-01-13T00:30:00+03:00'']"
    by (simp add: entry_rows_def example_entry_def get_default_def)
  have rows_late: "entry_rows example_entry_late
      = [example_row ''2026-01-13T01:00:00+03:00'', example_row ''2026-01-13T00:00:00+03:00'',
         example_row ''2026-01-13T01:30:01+03:00'', example_row ''2026-01-13T00:30:00+03:00'']"
    by (simp add: entry_rows_def example_entry_late_def get_default_def)
  have fv: "first_values example_entry = [1, 2, 3, 4]"
    by (simp add: first_values_def rows example_row_def get_default_def)
  have p: "parse_timestamps example_parse (entry_rows example_entry) = Some ?ts"
    unfolding rows by code_simp
  have pl: "parse_timestamps example_parse (entry_rows example_entry_late) = Some ?tl"
    unfolding rows_late by code_simp
  have s: "sort_key instant ?ts
      = [Aware 0 10800000000, Aware 1800000000 10800000000,
         Aware 3600000000 10800000000, Aware 5400000000 10800000000]"
    by simp
  have sl: "sort_key instant ?tl
      = [Aware 0 10800000000, Aware 1800000000 10800000000,
         Aware 3600000000 10800000000, Aware 5401000000 10800000000]"
    by simp
  note t = day_push_classify_validate [of example_entry example_parse "''half_hourly''" ?ts]
  note tl = day_push_classify_validate
    [of example_entry_late example_parse "''half_hourly''" ?tl]
  have 1: "classify_day_push_entry example_entry = ''half_hourly''"
    using t by (simp add: rows fv)
  have "validate_day_push_intervals example_parse example_entry ''half_hourly''
      \<longleftrightarrow> (\<forall>i. Suc i < length ?ts \<longrightarrow>
             instant (sort_key instant ?ts ! Suc i) - instant (sort_key instant ?ts ! i)
               = expected_delta ''half_hourly'')"
    using t p by (simp add: rows)
  then have 2: "validate_day_push_intervals example_parse example_entry ''half_hourly''"
    unfolding s by (simp add: expected_delta_def less_Suc_eq all_conj_distrib)
  have "validate_day_push_intervals example_parse example_entry_late ''half_hourly''
      \<longleftrightarrow> (\<forall>i. Suc i < length ?tl \<longrightarrow>
             instant (sort_key instant ?tl ! Suc i) - instant (sort_key instant ?tl ! i)
               = expected_delta ''half_hourly'')"
    using tl pl by (simp add: rows_late)
  then have 3: "\<not> validate_day_push_intervals example_parse example_entry_late ''half_hourly''"
    unfolding sl by (simp add: expected_delta_def less_Suc_eq all_conj_distrib)
  have 4: "validate_day_push_intervals example_parse
             \<lparr>entry_data = Some [example_row ''x'']\<rparr> ''daily''"
    using day_push_classify_validate
      [of "\<lparr>entry_data = Some [example_row ''x'']\<rparr>" example_parse "''daily''" "[]"]
    by (simp add: entry_rows_def get_default_def)
  have n: "example_parse (replace_Z (get_default (row_timestamp (example_row ''x'')) [])) = None"
    by code_simp
  have 5: "\<not> validate_day_push_intervals example_parse
          \<lparr>entry_data = Some [example_row ''x'', example_row ''y'']\<rparr> ''daily''"
    using day_push_classify_validate
      [of "\<lparr>entry_data = Some [example_row ''x'', example_row ''y'']\<rparr>" example_parse
          "''daily''" "[]"] n
    by (simp add: entry_rows_def get_default_def)
  from 1 2 3 4 5 show ?thesis by (intro conjI)
qed

section \<open>Properties of the day-push row loop\<close>

lemma signed_be16_range: "- 32768 \<le> signed_be16 hi lo \<and> signed_be16 hi lo \<le> 32767"
proof -
  define u where "u = 256 * uint hi + uint lo"
  have "0 \<le> u" "u < 65536" unfolding u_def by (rule dev_raw_range)+
  then show ?thesis unfolding signed_be16_def Let_def u_def [symmetric] by auto
qed

lemma signed_be16_sentinel: "signed_be16 0x80 0x00 = - 32768"
  by (simp add: signed_be16_def)

lemma parse_dlms_datetime_Inr:
  assumes "parse_dlms_datetime h = Inr s"
  shows "\<exists>b. fromhex h = Some b \<and> 12 \<le> length b
     \<and> - 1440 < signed_be16 (b ! 9) (b ! 10) \<and> signed_be16 (b ! 9) (b ! 10) < 1440
     \<and> valid_datetime (dlms_fields b)
     \<and> s = isoformat (dlms_fields b) (signed_be16 (b ! 9) (b ! 10))"
proof -
  from assms obtain b where b: "fromhex h = Some b"
    by (cases "fromhex h") (simp_all add: parse_dlms_datetime_def)
  have ne: "signed_be16 (b ! 9) (b ! 10) \<noteq> 32768"
    using signed_be16_range [of "b ! 9" "b ! 10"] by linarith
  from assms have l: "12 \<le> length b"
    unfolding parse_dlms_datetime_def b by (simp split: if_splits)
  from assms l ne show ?thesis
    unfolding parse_dlms_datetime_def b Let_def mk_timezone_def
    by (simp split: if_splits)
qed

lemma parse_dlms_datetime_sentinel:
  assumes "fromhex h = Some b" "12 \<le> length b" "b ! 9 = 0x80" "b ! 10 = 0x00"
  shows "parse_dlms_datetime h = Inl ValueError"
  using assms unfolding parse_dlms_datetime_def Let_def
  by (simp add: signed_be16_sentinel mk_timezone_def)

lemma day_push_row_Some:
  assumes "day_push_row se = Some r"
  shows "\<exists>date_octet rest s. el_children se = date_octet # rest
     \<and> el_tag date_octet = ''OctetString''
     \<and> parse_dlms_datetime (et_get date_octet ''Value'' []) = Inr s
     \<and> row_timestamp r = Some s"
  using assms unfolding day_push_row_def
  by (auto split: list.splits if_splits sum.splits)

lemma day_push_row_included:
  assumes "day_push_row se = Some r"
  shows "\<exists>date_octet rest b. el_children se = date_octet # rest
     \<and> el_tag date_octet = ''OctetString''
     \<and> fromhex (et_get date_octet ''Value'' []) = Some b \<and> 12 \<le> length b
     \<and> - 1440 < signed_be16 (b ! 9) (b ! 10) \<and> signed_be16 (b ! 9) (b ! 10) < 1440
     \<and> valid_datetime (dlms_fields b)
     \<and> row_timestamp r = Some (isoformat (dlms_fields b) (signed_be16 (b ! 9) (b ! 10)))"
proof -
  from day_push_row_Some [OF assms] obtain date_octet rest s where
    c: "el_children se = date_octet # rest" "el_tag date_octet = ''OctetString''"
    and p: "parse_dlms_datetime (et_get date_octet ''Value'' []) = Inr s"
    and t: "row_timestamp r = Some s" by blast
  from parse_dlms_datetime_Inr [OF p] c t show ?thesis by blast
qed

lemma day_push_data_rows:
  assumes "parse_new_style_push xml = Inr res" "r \<in> set (dp_data res)"
  shows "\<exists>se. day_push_row se = Some r"
proof -
  from assms(1) obtain ss where "dp_data res = List.map_filter day_push_row ss"
    unfolding parse_new_style_push_def
    by (auto split: option.splits list.splits)
  with assms(2) have "r \<in> set (map (the \<circ> day_push_row) (filter (\<lambda>x. day_push_row x \<noteq> None) ss))"
    by (simp add: List.map_filter_def)
  then show ?thesis by auto
qed

lemma day_push_row_sentinel:
  assumes "el_children se = d # rest" "fromhex (et_get d ''Value'' []) = Some b"
    "12 \<le> length b" "b ! 9 = 0x80" "b ! 10 = 0x00"
  shows "day_push_row se = None"
  using parse_dlms_datetime_sentinel [OF assms(2-5)] assms(1)
  by (simp add: day_push_row_def)

text \<open>
  C10.  A row of the day-push loop is in the output only if its first child is an
  \<open>OctetString\<close> whose value decodes to at least 12 bytes from which
  \<open>_parse_dlms_datetime\<close> builds a valid datetime with a time zone (an offset strictly
  within 24 hours).  The deviation is read as a signed 16-bit integer, which is never
  0x8000 = 32768: the guard \<open>deviation != 0x8000\<close> always holds and the branch
  \<open>timezone.utc\<close> is never taken.  The bytes 0x80 0x00 are read as -32768 minutes, for
  which the time zone cannot be built: \<open>_parse_dlms_datetime\<close> raises ValueError and the
  row is skipped.
\<close>

theorem day_push_row_deviation:
  "(day_push_row se = Some r \<longrightarrow>
      (\<exists>date_octet rest b. el_children se = date_octet # rest
         \<and> el_tag date_octet = ''OctetString''
         \<and> fromhex (et_get date_octet ''Value'' []) = Some b \<and> 12 \<le> length b
         \<and> - 1440 < signed_be16 (b ! 9) (b ! 10) \<and> signed_be16 (b ! 9) (b ! 10) < 1440
         \<and> valid_datetime (dlms_fields b)
         \<and> row_timestamp r = Some (isoformat (dlms_fields b) (signed_be16 (b ! 9) (b ! 10)))))
   \<and> (parse_new_style_push xml = Inr res \<and> r' \<in> set (dp_data res) \<longrightarrow>
        (\<exists>se'. day_push_row se' = Some r'))
   \<and> signed_be16 hi lo \<noteq> 0x8000
   \<and> signed_be16 0x80 0x00 = - 32768
   \<and> mk_timezone (- 32768) = None
   \<and> (el_children s2 = d2 # rest2 \<and> fromhex (et_get d2 ''Value'' []) = Some b2
        \<and> 12 \<le> length b2 \<and> b2 ! 9 = 0x80 \<and> b2 ! 10 = 0x00 \<longrightarrow>
        parse_dlms_datetime (et_get d2 ''Value'' []) = Inl ValueError
        \<and> day_push_row s2 = None)"
proof (intro conjI impI)
  assume "day_push_row se = Some r"
  then show "\<exists>date_octet rest b. el_children se = date_octet # rest
         \<and> el_tag date_octet = ''OctetString''
         \<and> fromhex (et_get date_octet ''Value'' []) = Some b \<and> 12 \<le> length b
         \<and> - 1440 < signed_be16 (b ! 9) (b ! 10) \<and> signed_be16 (b ! 9) (b ! 10) < 1440
         \<and> valid_datetime (dlms_fields b)
         \<and> row_timestamp r = Some (isoformat (dlms_fields b) (signed_be16 (b ! 9) (b ! 10)))"
    by (rule day_push_row_included)
next
  assume "parse_new_style_push xml = Inr res \<and> r' \<in> set (dp_data res)"
  then show "\<exists>se'. day_push_row se' = Some r'"
    using day_push_data_rows by blast
next
  show "signed_be16 hi lo \<noteq> 0x8000"
    using signed_be16_range [of hi lo] by linarith
  show "signed_be16 0x80 0x00 = - 32768" by (rule signed_be16_sentinel)
  show "mk_timezone (- 32768) = None" by (simp add: mk_timezone_def)
next
  assume a: "el_children s2 = d2 # rest2 \<and> fromhex (et_get d2 ''Value'' []) = Some b2
        \<and> 12 \<le> length b2 \<and> b2 ! 9 = 0x80 \<and> b2 ! 10 = 0x00"
  then show "parse_dlms_datetime (et_get d2 ''Value'' []) = Inl ValueError"
    by (intro parse_dlms_datetime_sentinel [of _ b2]) simp_all
next
  assume a: "el_children s2 = d2 # rest2 \<and> fromhex (et_get d2 ''Value'' []) = Some b2
        \<and> 12 \<le> length b2 \<and> b2 ! 9 = 0x80 \<and> b2 ! 10 = 0x00"
  then show "day_push_row s2 = None"
    by (intro day_push_row_sentinel [of _ d2 rest2 b2]) simp_all
qed

theorem day_push_row_deviation_witness:
  "day_push_row (example_struct ''07EA010DFF0E2114FFFF4C00'')
     = Some \<lparr>row_timestamp = Some ''2026-01-13T14:33:20-03:00'', row_values = Some [10]\<rparr>
   \<and> fromhex ''07EA010DFF0E2114FFFF4C00''
       = Some [0x07, 0xEA, 0x01, 0x0D, 0xFF, 0x0E, 0x21, 0x14, 0xFF, 0xFF, 0x4C, 0x00]
   \<and> signed_be16 0xFF 0x4C = - 180
   \<and> parse_dlms_datetime ''07EA010DFF0E2114FF800000'' = Inl ValueError
   \<and> day_push_row (example_struct ''07EA010DFF0E2114FF800000'') = None"
proof -
  let ?ok = "''07EA010DFF0E2114FFFF4C00''"
  let ?bad = "''07EA010DFF0E2114FF800000''"
  let ?b = "[0x07, 0xEA, 0x01, 0x0D, 0xFF, 0x0E, 0x21, 0x14, 0xFF, 0xFF, 0x4C, 0x00] :: byte list"
  let ?c = "[0x07, 0xEA, 0x01, 0x0D, 0xFF, 0x0E, 0x21, 0x14, 0xFF, 0x80, 0x00, 0x00] :: byte list"
  have fo: "fromhex ?ok = Some ?b" by code_simp
  have fb: "fromhex ?bad = Some ?c" by code_simp
  have dev: "signed_be16 0xFF 0x4C = - 180" by (simp add: signed_be16_def)
  have val: "py_int 10 ''00000010'' = Some 10" by code_simp
  have iso: "isoformat (dlms_fields ?b) (- 180) = ''2026-01-13T14:33:20-03:00''"
    by (simp add: isoformat_def dlms_fields_def fmt0_def dec_eval dec_Suc_0)
  have vd: "valid_datetime (dlms_fields ?b)"
    by (simp add: valid_datetime_def dlms_fields_def days_in_month_def)
  have pd: "parse_dlms_datetime ?ok = Inr ''2026-01-13T14:33:20-03:00''"
    unfolding parse_dlms_datetime_def fo Let_def
    by (simp add: dev mk_timezone_def vd iso)
  have row: "day_push_row (example_struct ?ok)
     = Some \<lparr>row_timestamp = Some ''2026-01-13T14:33:20-03:00'', row_values = Some [10]\<rparr>"
    by (simp add: day_push_row_def example_struct_def et_get_def get_default_def pd
        day_push_values_def val)
  note t = day_push_row_deviation
    [of "example_struct ?ok"
        "\<lparr>row_timestamp = Some ''2026-01-13T14:33:20-03:00'', row_values = Some [10]\<rparr>"
        None undefined undefined "0xFF" "0x4C" "example_struct ?bad"
        "Elem ''OctetString'' [(''Value'', ?bad)] None []"
        "[Elem ''UInt32'' [(''Value'', ''00000010'')] None []]" ?c]
  have ch: "el_children (example_struct ?bad)
      = Elem ''OctetString'' [(''Value'', ?bad)] None []
        # [Elem ''UInt32'' [(''Value'', ''00000010'')] None []]"
    by (simp add: example_struct_def)
  have g: "et_get (Elem ''OctetString'' [(''Value'', ?bad)] None []) ''Value'' [] = ?bad"
    by (simp add: et_get_def get_default_def)
  have hyp: "el_children (example_struct ?bad)
        = Elem ''OctetString'' [(''Value'', ?bad)] None []
          # [Elem ''UInt32'' [(''Value'', ''00000010'')] None []]
      \<and> fromhex (et_get (Elem ''OctetString'' [(''Value'', ?bad)] None []) ''Value'' []) = Some ?c
      \<and> 12 \<le> length ?c \<and> ?c ! 9 = 0x80 \<and> ?c ! 10 = 0x00"
    unfolding g using ch fb by simp
  from t hyp have "parse_dlms_datetime
      (et_get (Elem ''OctetString'' [(''Value'', ?bad)] None []) ''Value'' []) = Inl ValueError
      \<and> day_push_row (example_struct ?bad) = None"
    by blast
  then have "parse_dlms_datetime ?bad = Inl ValueError"
    and "day_push_row (example_struct ?bad) = None"
    unfolding g by simp_all
  with row fo dev show ?thesis by (intro conjI)
qed

section \<open>Properties of extract\_obis\_values\_and\_invoke\_id\<close>

lemma collect_values_take:
  "collect_values i n es = map (\<lambda>e. parse_xml_element_value (snd e)) (take (n - i) es)"
proof (induction es arbitrary: i)
  case Nil
  then show ?case by simp
next
  case (Cons e es)
  show ?case
  proof (cases "i < n")
    case True
    then obtain k where k: "n - i = Suc k" "n - Suc i = k" by (cases "n - i") auto
    show ?thesis using True by (simp add: Cons k)
  next
    case False
    then show ?thesis by (simp add: Cons)
  qed
qed

lemma length_assemble_records: "length (assemble_records i es vs) = length es"
  by (induction es arbitrary: i) simp_all

lemma nth_assemble_records:
  "k < length es \<Longrightarrow>
   rec_value (assemble_records i es vs ! k) =
     (if i + k = 0 then empty_value
      else if i + k - 1 < length vs then vs ! (i + k - 1) else missing_value)"
proof (induction es arbitrary: i k)
  case Nil
  then show ?case by simp
next
  case (Cons e es)
  show ?case
  proof (cases k)
    case 0
    then show ?thesis by simp
  next
    case (Suc j)
    with Cons.prems have "j < length es" by simp
    from Cons.IH [OF this, of "Suc i"] show ?thesis by (simp add: Suc)
  qed
qed

lemma find_parent_general:
  "find_parent_iter n target =
     (if \<exists>q. q \<noteq> [] \<and> target = fst n @ q \<and> elem_at (snd n) q \<noteq> None
      then Some (parent_node (fst n) (snd n) (drop (length (fst n)) target)) else None)"
  "cs = drop i (el_children (snd parent)) \<Longrightarrow>
   find_parent_loop parent i cs target =
     (if \<exists>j q. i \<le> j \<and> target = fst parent @ j # q \<and> elem_at (snd parent) (j # q) \<noteq> None
      then Some (parent_node (fst parent) (snd parent) (drop (length (fst parent)) target))
      else None)"
proof (induction n target and parent i cs target rule: find_parent_iter_find_parent_loop.induct)
  case (1 pp t a x cs target)
  have "(\<exists>q. q \<noteq> [] \<and> target = pp @ q \<and> elem_at (Elem t a x cs) q \<noteq> None)
      \<longleftrightarrow> (\<exists>j q. 0 \<le> j \<and> target = pp @ j # q \<and> elem_at (Elem t a x cs) (j # q) \<noteq> None)"
    by (metis le0 list.exhaust list.distinct(1))
  with 1 [of ] show ?case by simp
next
  case (2 parent i target)
  then have "length (el_children (snd parent)) \<le> i" by simp
  then have "\<not> (\<exists>j q. i \<le> j \<and> target = fst parent @ j # q \<and> elem_at (snd parent) (j # q) \<noteq> None)"
    by auto
  then show ?case by simp
next
  case (3 parent i c cs target)
  obtain pp pe where parent: "parent = (pp, pe)" by (cases parent)
  from 3(3) have d: "c # cs = drop i (el_children pe)" by (simp add: parent)
  then have il: "i < length (el_children pe)"
    by (metis drop_all list.distinct(1) not_le)
  from d il have ci: "el_children pe ! i = c"
    by (metis Cons_nth_drop_Suc list.inject)
  from d il have cs: "cs = drop (Suc i) (el_children pe)"
    by (metis Cons_nth_drop_Suc list.inject)
  show ?case
  proof (cases "pp @ [i] = target")
    case True
    have "elem_at pe [i] \<noteq> None" using il by simp
    then have ex: "\<exists>j q. i \<le> j \<and> target = pp @ j # q \<and> elem_at pe (j # q) \<noteq> None"
      using True by blast
    have "parent_node pp pe (drop (length pp) target) = (pp, pe)"
      using True by (auto simp: parent_node_def)
    with ex True show ?thesis by (simp add: parent)
  next
    case False
    note ih_iter = 3(1) [unfolded parent fst_conv snd_conv, OF False]
    show ?thesis
    proof (cases "\<exists>q. q \<noteq> [] \<and> target = (pp @ [i]) @ q \<and> elem_at c q \<noteq> None")
      case True
      then obtain q where q: "q \<noteq> []" "target = pp @ i # q" "elem_at c q \<noteq> None" by auto
      have ex: "\<exists>j q. i \<le> j \<and> target = pp @ j # q \<and> elem_at pe (j # q) \<noteq> None"
        using q il ci by (intro exI [of _ i] exI [of _ q]) simp
      have "parent_node (pp @ [i]) c (drop (length (pp @ [i])) target)
          = parent_node pp pe (drop (length pp) target)"
        using q il ci by (simp add: parent_node_def butlast.simps)
      with True ex ih_iter False show ?thesis by (simp add: parent)
    next
      case nf: False
      then have none: "find_parent_iter (pp @ [i], c) target = None"
        using ih_iter by simp
      note ih_loop = 3(2) [unfolded parent fst_conv snd_conv, OF False none cs]
      have "(\<exists>j q. i \<le> j \<and> target = pp @ j # q \<and> elem_at pe (j # q) \<noteq> None)
          \<longleftrightarrow> (\<exists>j q. Suc i \<le> j \<and> target = pp @ j # q \<and> elem_at pe (j # q) \<noteq> None)"
      proof
        assume "\<exists>j q. i \<le> j \<and> target = pp @ j # q \<and> elem_at pe (j # q) \<noteq> None"
        then obtain j q where jq: "i \<le> j" "target = pp @ j # q" "elem_at pe (j # q) \<noteq> None"
          by blast
        have "j \<noteq> i"
        proof
          assume e: "j = i"
          show False
          proof (cases "q = []")
            case True
            with jq e \<open>pp @ [i] \<noteq> target\<close> show False by simp
          next
            case False
            with jq e il ci nf show False by auto
          qed
        qed
        with jq show "\<exists>j q. Suc i \<le> j \<and> target = pp @ j # q \<and> elem_at pe (j # q) \<noteq> None"
          by (intro exI [of _ j] exI [of _ q]) simp
      next
        assume "\<exists>j q. Suc i \<le> j \<and> target = pp @ j # q \<and> elem_at pe (j # q) \<noteq> None"
        then obtain j q where "Suc i \<le> j" "target = pp @ j # q" "elem_at pe (j # q) \<noteq> None"
          by blast
        then show "\<exists>j q. i \<le> j \<and> target = pp @ j # q \<and> elem_at pe (j # q) \<noteq> None"
          by (intro exI [of _ j] exI [of _ q]) simp
      qed
      with ih_loop none False show ?thesis by (simp add: parent)
    qed
  qed
qed

lemma elem_at_append:
  "elem_at r (p @ q) = (case elem_at r p of None \<Rightarrow> None | Some e \<Rightarrow> elem_at e q)"
  by (induction p arbitrary: r) simp_all

lemma iter_paths_valid:
  "(p, e) \<in> set (iter_paths r) \<Longrightarrow> elem_at r p = Some e"
  "(p, e) \<in> set (iter_paths_from i cs) \<Longrightarrow>
     \<exists>j q. p = (i + j) # q \<and> j < length cs \<and> elem_at (cs ! j) q = Some e"
proof (induction r and i cs arbitrary: p e and p e rule: iter_paths_iter_paths_from.induct)
  case (1 t a x cs)
  show ?case
  proof (cases "p = []")
    case True
    with 1(2) have "e = Elem t a x cs \<or> ([], e) \<in> set (iter_paths_from 0 cs)" by auto
    moreover have "([], e) \<notin> set (iter_paths_from 0 cs)" using 1(1) [of "[]" e] by auto
    ultimately show ?thesis using True by simp
  next
    case False
    with 1(2) have "(p, e) \<in> set (iter_paths_from 0 cs)" by auto
    from 1(1) [OF this] show ?thesis by auto
  qed
next
  case (2 i)
  then show ?case by simp
next
  case (3 i c cs)
  from 3(3) have "(p, e) \<in> set (map (\<lambda>(p, e). (i # p, e)) (iter_paths c))
      \<or> (p, e) \<in> set (iter_paths_from (Suc i) cs)" by simp
  then show ?case
  proof
    assume "(p, e) \<in> set (map (\<lambda>(p, e). (i # p, e)) (iter_paths c))"
    then obtain q where "p = i # q" "(q, e) \<in> set (iter_paths c)" by auto
    with 3(1) [of q e] show ?thesis by (intro exI [of _ 0] exI [of _ q]) simp
  next
    assume "(p, e) \<in> set (iter_paths_from (Suc i) cs)"
    from 3(2) [OF this] obtain j q where "p = (Suc i + j) # q" "j < length cs"
      "elem_at (cs ! j) q = Some e" by blast
    then show ?thesis by (intro exI [of _ "Suc j"] exI [of _ q]) simp
  qed
qed

lemma in_child_nodes:
  "m \<in> set (child_nodes n) \<longleftrightarrow>
     (\<exists>i. i < length (el_children (snd n)) \<and> m = (fst n @ [i], el_children (snd n) ! i))"
proof
  assume "m \<in> set (child_nodes n)"
  then obtain i c where ic: "(i, c) \<in> set (enumerate 0 (el_children (snd n)))"
    and m: "m = (fst n @ [i], c)"
    unfolding child_nodes_def by auto
  from ic have "i < length (el_children (snd n))" "el_children (snd n) ! i = c"
    by (simp_all add: in_set_enumerate_eq)
  with m show "\<exists>i. i < length (el_children (snd n)) \<and> m = (fst n @ [i], el_children (snd n) ! i)"
    by blast
next
  assume "\<exists>i. i < length (el_children (snd n)) \<and> m = (fst n @ [i], el_children (snd n) ! i)"
  then obtain i where i: "i < length (el_children (snd n))"
    and m: "m = (fst n @ [i], el_children (snd n) ! i)" by blast
  from i have "(i, el_children (snd n) ! i) \<in> set (enumerate 0 (el_children (snd n)))"
    by (simp add: in_set_enumerate_eq)
  then have "(\<lambda>(i, c). (fst n @ [i], c)) (i, el_children (snd n) ! i) \<in> set (child_nodes n)"
    unfolding child_nodes_def set_map by (rule imageI)
  with m show "m \<in> set (child_nodes n)" by simp
qed

lemma child_nodes_valid:
  assumes "valid_node root n" "m \<in> set (child_nodes n)"
  shows "valid_node root m"
  using assms unfolding in_child_nodes valid_node_def
  by (auto simp: elem_at_append)

lemma iter_nodes_valid:
  assumes "valid_node root n" "m \<in> set (iter_nodes n)"
  shows "valid_node root m"
proof -
  from assms(2) obtain p e where "(p, e) \<in> set (iter_paths (snd n))" "m = (fst n @ p, e)"
    by (auto simp: iter_nodes_def)
  with iter_paths_valid(1) [of p e "snd n"] assms(1) show ?thesis
    by (simp add: valid_node_def elem_at_append)
qed

lemma et_step_valid:
  assumes "valid_node root n" "m \<in> set (et_step s n)"
  shows "valid_node root m"
proof (cases s)
  case (Desc t)
  with assms(2) have "m \<in> set (tl (iter_nodes n))" by simp
  then have "m \<in> set (iter_nodes n)" by (cases "iter_nodes n") auto
  with assms(1) show ?thesis by (rule iter_nodes_valid)
next
  case (Child t)
  with assms(2) have "m \<in> set (child_nodes n)" by simp
  with assms(1) show ?thesis by (rule child_nodes_valid)
qed

lemma index_of_enumerate:
  "j < length cs \<Longrightarrow>
   index_of (map (\<lambda>(i, c). (q @ [i], c)) (enumerate k cs)) (q @ [k + j]) = Some j"
proof (induction cs arbitrary: k j)
  case Nil
  then show ?case by simp
next
  case (Cons c cs)
  show ?case
  proof (cases j)
    case 0
    then show ?thesis by simp
  next
    case (Suc j')
    with Cons.prems have "j' < length cs" by simp
    from Cons.IH [OF this, of "Suc k"] show ?thesis by (simp add: Suc)
  qed
qed

lemma index_of_child_nodes:
  "i < length (el_children s) \<Longrightarrow> index_of (child_nodes (q, s)) (q @ [i]) = Some i"
  using index_of_enumerate [of i "el_children s" q 0] by (simp add: child_nodes_def)

lemma snd_child_nodes: "map snd (child_nodes n) = el_children (snd n)"
proof -
  have "snd \<circ> (\<lambda>(i, c). (fst n @ [i], c)) = snd" by auto
  then have "map snd (child_nodes n) = map snd (enumerate 0 (el_children (snd n)))"
    unfolding child_nodes_def map_map by (rule arg_cong)
  then show ?thesis by (simp only: map_snd_enumerate)
qed

lemma elements_after_children:
  assumes "i < length (el_children s)"
  shows "map snd (elements_after (q, s) (q @ [i])) = drop (Suc i) (el_children s)"
proof -
  have "elements_after (q, s) (q @ [i]) = drop (Suc i) (child_nodes (q, s))"
    by (simp add: elements_after_def index_of_child_nodes [OF assms])
  then have "map snd (elements_after (q, s) (q @ [i])) = drop (Suc i) (map snd (child_nodes (q, s)))"
    by (simp only: drop_map)
  then show ?thesis by (simp only: snd_child_nodes snd_conv)
qed

lemma find_parent_child:
  assumes "elem_at root q = Some parent" "i < length (el_children parent)"
  shows "find_parent root (q @ [i]) = Some (q, parent)"
proof -
  have "elem_at root (q @ [i]) \<noteq> None" using assms by (simp add: elem_at_append)
  then have "\<exists>r. r \<noteq> [] \<and> q @ [i] = fst ([]::path, root) @ r
      \<and> elem_at (snd ([]::path, root)) r \<noteq> None"
    by (intro exI [of _ "q @ [i]"]) simp
  then have "find_parent_iter ([], root) (q @ [i]) = Some (parent_node [] root (q @ [i]))"
    using find_parent_general(1) [of "([], root)" "q @ [i]"] by simp
  moreover have "parent_node [] root (q @ [i]) = (q, parent)"
    using assms by (simp add: parent_node_def)
  ultimately show ?thesis by (simp add: find_parent_def)
qed

lemma et_find_child:
  assumes "et_find [Desc a, Child b, Child c] ([], root) = Some (p, arr)"
  shows "\<exists>q i parent. p = q @ [i] \<and> elem_at root q = Some parent
      \<and> i < length (el_children parent) \<and> el_children parent ! i = arr"
proof -
  from assms have "(p, arr) \<in> set (et_findall [Desc a, Child b, Child c] ([], root))"
    by (auto simp: et_find_def split: list.splits)
  then obtain n1 n2 where n1: "n1 \<in> set (et_step (Desc a) ([], root))"
    and n2: "n2 \<in> set (et_step (Child b) n1)"
    and m: "(p, arr) \<in> set (et_step (Child c) n2)"
    by (auto simp add: et_findall_def simp del: et_step.simps)
  have "valid_node root ([], root)" by (simp add: valid_node_def)
  from this n1 have "valid_node root n1" by (rule et_step_valid)
  from this n2 have v: "valid_node root n2" by (rule et_step_valid)
  from m have "(p, arr) \<in> set (child_nodes n2)" by simp
  then obtain i where i: "i < length (el_children (snd n2))"
    and pa: "(p, arr) = (fst n2 @ [i], el_children (snd n2) ! i)"
    unfolding in_child_nodes by blast
  from v have "elem_at root (fst n2) = Some (snd n2)" by (simp add: valid_node_def)
  with i pa show ?thesis
    by (intro exI [of _ "fst n2"] exI [of _ i] exI [of _ "snd n2"]) simp
qed

lemma extract_obis_records:
  assumes f: "et_find [Desc ''DataValue'', Child ''Structure'', Child ''Array''] ([], root)
            = Some (q @ [i], obis_array)"
    and q: "elem_at root q = Some parent" and i: "i < length (el_children parent)"
  shows "extract_obis_values_and_invoke_id (Some root) =
     Inr \<lparr>res_invoke_id = push_invoke_id root,
          res_records = assemble_records 0 (obis_entries_of obis_array)
             (map parse_xml_element_value
                (take (length (obis_entries_of obis_array) - 1)
                   (drop (Suc i) (el_children parent)))),
          res_extra_structures = []\<rparr>"
proof -
  have fp: "find_parent root (q @ [i]) = Some (q, parent)"
    using q i by (rule find_parent_child)
  have ea: "map snd (elements_after (q, parent) (q @ [i])) = drop (Suc i) (el_children parent)"
    using i by (rule elements_after_children)
  have "collect_values 0 (length (obis_entries_of obis_array) - 1)
          (elements_after (q, parent) (q @ [i]))
      = map parse_xml_element_value
          (take (length (obis_entries_of obis_array) - 1) (drop (Suc i) (el_children parent)))"
    unfolding collect_values_take ea [symmetric] by (simp add: take_map comp_def)
  then show ?thesis
    unfolding extract_obis_values_and_invoke_id_def by (simp add: f fp Let_def)
qed

lemma example_find:
  "et_find [Desc ''DataValue'', Child ''Structure'', Child ''Array''] ([], example_notification)
     = Some ([1, 0, 0, 0], example_array)"
  by code_simp

lemma example_entries: "length (obis_entries_of example_array) = 3"
  by code_simp

lemma example_parent: "elem_at example_notification [1, 0, 0] = Some example_structure"
  by code_simp

lemma example_values:
  "parse_xml_element_value (Elem ''OctetString'' [(''Value'', ''3132'')] None [])
     = JDict [(''type'', JStr ''OctetString''), (''value'', JStr ''3132''), (''ascii'', JStr ''12'')]"
  "parse_xml_element_value (Elem ''UInt8'' [(''Value'', ''05'')] None [])
     = JDict [(''type'', JStr ''UInt8''), (''value'', JStr ''05''), (''decimal'', JStr ''5'')]"
  by code_simp+

text \<open>
  C3.  When the notification has an OBIS array (the first match of
  \<open>.//DataValue/Structure/Array\<close>, at position \<open>i\<close> among the children of its parent),
  \<open>extract_obis_values_and_invoke_id\<close> returns a result, and with \<open>n\<close> the number of
  OBIS entries: the values are the decoded siblings that follow the array in its parent,
  in order, the first \<open>n - 1\<close> of them (all of them when there are fewer; any further
  sibling is ignored); there are \<open>n\<close> records; the value of record 0 is the Empty
  sentinel; and for \<open>k \<ge> 1\<close> the value of record \<open>k\<close> is value \<open>k - 1\<close>, or the Missing
  sentinel when there is no such value.
\<close>

theorem obis_push_records:
  assumes "et_find [Desc ''DataValue'', Child ''Structure'', Child ''Array''] ([], root)
            = Some (p, obis_array)"
  shows "\<exists>q i parent res.
     p = q @ [i] \<and> elem_at root q = Some parent \<and> i < length (el_children parent) \<and>
     el_children parent ! i = obis_array \<and>
     extract_obis_values_and_invoke_id (Some root) = Inr res \<and>
     (let n = length (obis_entries_of obis_array);
          vs = map parse_xml_element_value (take (n - 1) (drop (Suc i) (el_children parent)))
      in length (res_records res) = n \<and>
         (0 < n \<longrightarrow> rec_value (res_records res ! 0) = empty_value) \<and>
         (\<forall>k. 1 \<le> k \<and> k < n \<longrightarrow>
            rec_value (res_records res ! k) =
              (if k - 1 < length vs then vs ! (k - 1) else missing_value)))"
proof -
  from et_find_child [OF assms] obtain q i parent where p: "p = q @ [i]"
    and q: "elem_at root q = Some parent" and i: "i < length (el_children parent)"
    and a: "el_children parent ! i = obis_array" by blast
  let ?n = "length (obis_entries_of obis_array)"
  let ?vs = "map parse_xml_element_value (take (?n - 1) (drop (Suc i) (el_children parent)))"
  let ?res = "\<lparr>res_invoke_id = push_invoke_id root,
          res_records = assemble_records 0 (obis_entries_of obis_array) ?vs,
          res_extra_structures = []\<rparr>"
  have r: "extract_obis_values_and_invoke_id (Some root) = Inr ?res"
    using assms [unfolded p] q i by (rule extract_obis_records)
  have l: "length (res_records ?res) = ?n" by (simp add: length_assemble_records)
  have z: "0 < ?n \<longrightarrow> rec_value (res_records ?res ! 0) = empty_value"
    using nth_assemble_records [of 0 "obis_entries_of obis_array" 0 ?vs] by simp
  have k: "\<forall>k. 1 \<le> k \<and> k < ?n \<longrightarrow>
            rec_value (res_records ?res ! k) =
              (if k - 1 < length ?vs then ?vs ! (k - 1) else missing_value)"
  proof (intro allI impI)
    fix k assume "1 \<le> k \<and> k < ?n"
    then have "k < length (obis_entries_of obis_array)" "0 + k \<noteq> 0" by simp_all
    with nth_assemble_records [of k "obis_entries_of obis_array" 0 ?vs]
    show "rec_value (res_records ?res ! k) =
              (if k - 1 < length ?vs then ?vs ! (k - 1) else missing_value)"
      by simp
  qed
  from l z k have "let n = ?n; vs = map parse_xml_element_value
          (take (n - 1) (drop (Suc i) (el_children parent)))
      in length (res_records ?res) = n \<and>
         (0 < n \<longrightarrow> rec_value (res_records ?res ! 0) = empty_value) \<and>
         (\<forall>k. 1 \<le> k \<and> k < n \<longrightarrow>
            rec_value (res_records ?res ! k) =
              (if k - 1 < length vs then vs ! (k - 1) else missing_value))"
    unfolding Let_def by blast
  with p q i a r show ?thesis by blast
qed

theorem obis_push_records_witness:
  "et_find [Desc ''DataValue'', Child ''Structure'', Child ''Array''] ([], example_notification)
     = Some ([1, 0, 0, 0], example_array)
   \<and> length (obis_entries_of example_array) = 3
   \<and> (\<exists>res. extract_obis_values_and_invoke_id (Some example_notification) = Inr res
         \<and> length (res_records res) = 3
         \<and> rec_value (res_records res ! 0) = empty_value
         \<and> rec_value (res_records res ! 1)
             = JDict [(''type'', JStr ''OctetString''), (''value'', JStr ''3132''),
                      (''ascii'', JStr ''12'')]
         \<and> rec_value (res_records res ! 2)
             = JDict [(''type'', JStr ''UInt8''), (''value'', JStr ''05''),
                      (''decimal'', JStr ''5'')])"
proof -
  from obis_push_records [OF example_find] obtain q i parent res
    where p: "[1, 0, 0, 0] = q @ [i]"
      and q: "elem_at example_notification q = Some parent"
      and r: "extract_obis_values_and_invoke_id (Some example_notification) = Inr res"
      and rec: "let n = length (obis_entries_of example_array);
          vs = map parse_xml_element_value (take (n - 1) (drop (Suc i) (el_children parent)))
      in length (res_records res) = n \<and>
         (0 < n \<longrightarrow> rec_value (res_records res ! 0) = empty_value) \<and>
         (\<forall>k. 1 \<le> k \<and> k < n \<longrightarrow>
            rec_value (res_records res ! k) =
              (if k - 1 < length vs then vs ! (k - 1) else missing_value))"
    by blast
  from p have "q = butlast [1, 0, 0, 0]" by (metis butlast_snoc)
  then have q': "q = [1, 0, 0]" by simp
  from p have "i = last [1, 0, 0, 0]" by (metis last_snoc)
  then have i': "i = 0" by simp
  from q have parent: "parent = example_structure" unfolding q' example_parent by simp
  have vs: "map parse_xml_element_value
              (take (3 - 1) (drop (Suc 0) (el_children example_structure)))
            = [JDict [(''type'', JStr ''OctetString''), (''value'', JStr ''3132''),
                      (''ascii'', JStr ''12'')],
               JDict [(''type'', JStr ''UInt8''), (''value'', JStr ''05''),
                      (''decimal'', JStr ''5'')]]"
    unfolding example_structure_def by (simp add: example_values del: parse_xml_element_value.simps)
  note rec' = rec [unfolded example_entries i' parent Let_def vs]
  from rec' have l: "length (res_records res) = 3" by simp
  from rec' have z: "rec_value (res_records res ! 0) = empty_value" by simp
  from rec' have "1 \<le> (1::nat) \<and> (1::nat) < 3 \<longrightarrow> rec_value (res_records res ! 1) =
      (if (1::nat) - 1 < length [JDict [(''type'', JStr ''OctetString''), (''value'', JStr ''3132''),
                      (''ascii'', JStr ''12'')],
               JDict [(''type'', JStr ''UInt8''), (''value'', JStr ''05''),
                      (''decimal'', JStr ''5'')]] then [JDict [(''type'', JStr ''OctetString''), (''value'', JStr ''3132''),
                      (''ascii'', JStr ''12'')],
               JDict [(''type'', JStr ''UInt8''), (''value'', JStr ''05''),
                      (''decimal'', JStr ''5'')]] ! (1 - 1) else missing_value)"
    by blast
  then have one: "rec_value (res_records res ! 1)
             = JDict [(''type'', JStr ''OctetString''), (''value'', JStr ''3132''),
                      (''ascii'', JStr ''12'')]" by simp
  from rec' have "1 \<le> (2::nat) \<and> (2::nat) < 3 \<longrightarrow> rec_value (res_records res ! 2) =
      (if (2::nat) - 1 < length [JDict [(''type'', JStr ''OctetString''), (''value'', JStr ''3132''),
                      (''ascii'', JStr ''12'')],
               JDict [(''type'', JStr ''UInt8''), (''value'', JStr ''05''),
                      (''decimal'', JStr ''5'')]] then [JDict [(''type'', JStr ''OctetString''), (''value'', JStr ''3132''),
                      (''ascii'', JStr ''12'')],
               JDict [(''type'', JStr ''UInt8''), (''value'', JStr ''05''),
                      (''decimal'', JStr ''5'')]] ! (2 - 1) else missing_value)"
    by blast
  then have two: "rec_value (res_records res ! 2)
             = JDict [(''type'', JStr ''UInt8''), (''value'', JStr ''05''),
                      (''decimal'', JStr ''5'')]" by simp
  from example_find example_entries r l z one two show ?thesis by blast
qed

section \<open>Properties of is\_new\_style\_push\<close>

lemma find_first:
  "List.find P xs = Some x \<longleftrightarrow>
     (\<exists>pre post. xs = pre @ x # post \<and> P x \<and> (\<forall>e\<in>set pre. \<not> P e))"
proof (induction xs)
  case Nil
  show ?case by simp
next
  case (Cons y ys)
  show ?case
  proof (cases "P y")
    case True
    have "(\<exists>pre post. y # ys = pre @ x # post \<and> P x \<and> (\<forall>e\<in>set pre. \<not> P e)) \<longleftrightarrow> y = x"
    proof
      assume "\<exists>pre post. y # ys = pre @ x # post \<and> P x \<and> (\<forall>e\<in>set pre. \<not> P e)"
      then obtain pre post where e: "y # ys = pre @ x # post" and n: "\<forall>e\<in>set pre. \<not> P e"
        by blast
      show "y = x"
      proof (cases pre)
        case Nil
        with e show ?thesis by simp
      next
        case (Cons z zs)
        with e have "z = y" by simp
        with n Cons True show ?thesis by simp
      qed
    next
      assume "y = x"
      with True have "y # ys = [] @ x # ys \<and> P x \<and> (\<forall>e\<in>set []. \<not> P e)" by simp
      then show "\<exists>pre post. y # ys = pre @ x # post \<and> P x \<and> (\<forall>e\<in>set pre. \<not> P e)"
        by blast
    qed
    with True show ?thesis by simp
  next
    case False
    have "(\<exists>pre post. y # ys = pre @ x # post \<and> P x \<and> (\<forall>e\<in>set pre. \<not> P e))
        \<longleftrightarrow> (\<exists>pre post. ys = pre @ x # post \<and> P x \<and> (\<forall>e\<in>set pre. \<not> P e))"
    proof
      assume "\<exists>pre post. y # ys = pre @ x # post \<and> P x \<and> (\<forall>e\<in>set pre. \<not> P e)"
      then obtain pre post where e: "y # ys = pre @ x # post" and px: "P x"
        and n: "\<forall>e\<in>set pre. \<not> P e" by blast
      show "\<exists>pre post. ys = pre @ x # post \<and> P x \<and> (\<forall>e\<in>set pre. \<not> P e)"
      proof (cases pre)
        case Nil
        with e px False show ?thesis by simp
      next
        case (Cons z zs)
        with e n px have "ys = zs @ x # post \<and> P x \<and> (\<forall>e\<in>set zs. \<not> P e)" by simp
        then show ?thesis by blast
      qed
    next
      assume "\<exists>pre post. ys = pre @ x # post \<and> P x \<and> (\<forall>e\<in>set pre. \<not> P e)"
      then obtain pre post where "ys = pre @ x # post" "P x" "\<forall>e\<in>set pre. \<not> P e" by blast
      with False have "y # ys = (y # pre) @ x # post \<and> P x \<and> (\<forall>e\<in>set (y # pre). \<not> P e)"
        by simp
      then show "\<exists>pre post. y # ys = pre @ x # post \<and> P x \<and> (\<forall>e\<in>set pre. \<not> P e)"
        by blast
    qed
    with False Cons show ?thesis by simp
  qed
qed

lemma is_new_style_push_iff:
  "is_new_style_push xml \<longleftrightarrow>
     (\<exists>root dv s c cs.
        xml = Some root
        \<and> et_find [Desc ''NotificationBody'', Child ''DataValue''] ([], root) = Some dv
        \<and> List.find (\<lambda>e. el_tag e = ''Structure'') (iter_elems (snd dv)) = Some s
        \<and> el_children s = c # cs \<and> el_tag c = ''OctetString''
        \<and> length (et_get c ''Value'' []) \<noteq> 12)"
  unfolding is_new_style_push_def
  by (auto split: option.splits list.splits simp: Let_def)

lemma example_day_find:
  "et_find [Desc ''NotificationBody'', Child ''DataValue''] ([], example_day_push)
     = Some ([1, 0], Elem ''DataValue'' [] None [example_day_structure])"
  by code_simp

lemma example_day_iter:
  "iter_elems (snd ([1, 0 :: nat], Elem ''DataValue'' [] None [example_day_structure]))
     = [Elem ''DataValue'' [] None [example_day_structure]] @ example_day_structure
       # [Elem ''OctetString'' [(''Value'', ''50454E'')] None [],
          Elem ''Array'' [(''Qty'', ''00'')] None []]"
  by (simp add: example_day_structure_def)

lemma example_day_result:
  "parse_new_style_push (Some example_day_push)
     = Inr \<lparr>dp_invoke_id = Some 26, dp_logical_name = ''PEN'', dp_data = []\<rparr>"
  by code_simp

lemma example_obis_find:
  "et_find [Desc ''NotificationBody'', Child ''DataValue''] ([], example_notification)
     = Some ([1, 0], Elem ''DataValue'' [] None [example_structure])"
  by code_simp

lemma example_obis_first:
  "List.find (\<lambda>e. el_tag e = ''Structure'')
     (iter_elems (Elem ''DataValue'' [] None [example_structure])) = Some example_structure"
  by code_simp

text \<open>
  C4.  \<open>is_new_style_push\<close> is true exactly when the notification parses, the
  \<open>DataValue\<close> of the \<open>NotificationBody\<close> is found, the first element with tag
  \<open>Structure\<close> in document order inside that \<open>DataValue\<close> exists, the first child of
  this structure is an \<open>OctetString\<close>, and the length of its \<open>Value\<close> is not 12; in every
  other case, a parse error included, it is false.  When it is true
  \<open>parse_dlms_push_xml\<close> takes the day-push path, when it is false the OBIS-push path.
\<close>

theorem is_new_style_push_spec:
  "(is_new_style_push xml \<longleftrightarrow>
     (\<exists>root dv before s after c cs.
        xml = Some root
        \<and> et_find [Desc ''NotificationBody'', Child ''DataValue''] ([], root) = Some dv
        \<and> iter_elems (snd dv) = before @ s # after
        \<and> (\<forall>e\<in>set before. el_tag e \<noteq> ''Structure'') \<and> el_tag s = ''Structure''
        \<and> el_children s = c # cs \<and> el_tag c = ''OctetString''
        \<and> length (et_get c ''Value'' []) \<noteq> 12))
   \<and> (is_new_style_push xml \<longrightarrow>
        parse_dlms_push_xml xml =
          (case parse_new_style_push xml of Inl e \<Rightarrow> Inl e | Inr r \<Rightarrow> Inr (Day_push r)))
   \<and> (\<not> is_new_style_push xml \<longrightarrow>
        parse_dlms_push_xml xml =
          (case extract_obis_values_and_invoke_id xml of
             Inl e \<Rightarrow> Inl e | Inr r \<Rightarrow> Inr (Obis_push r)))"
proof (intro conjI impI)
  show "is_new_style_push xml \<longleftrightarrow>
     (\<exists>root dv before s after c cs.
        xml = Some root
        \<and> et_find [Desc ''NotificationBody'', Child ''DataValue''] ([], root) = Some dv
        \<and> iter_elems (snd dv) = before @ s # after
        \<and> (\<forall>e\<in>set before. el_tag e \<noteq> ''Structure'') \<and> el_tag s = ''Structure''
        \<and> el_children s = c # cs \<and> el_tag c = ''OctetString''
        \<and> length (et_get c ''Value'' []) \<noteq> 12)"
    unfolding is_new_style_push_iff find_first by blast
next
  assume "is_new_style_push xml"
  then show "parse_dlms_push_xml xml =
          (case parse_new_style_push xml of Inl e \<Rightarrow> Inl e | Inr r \<Rightarrow> Inr (Day_push r))"
    by (simp add: parse_dlms_push_xml_def)
next
  assume "\<not> is_new_style_push xml"
  then show "parse_dlms_push_xml xml =
          (case extract_obis_values_and_invoke_id xml of
             Inl e \<Rightarrow> Inl e | Inr r \<Rightarrow> Inr (Obis_push r))"
    by (simp add: parse_dlms_push_xml_def)
qed

theorem is_new_style_push_spec_witness:
  "is_new_style_push (Some example_day_push)
   \<and> parse_dlms_push_xml (Some example_day_push)
       = Inr (Day_push \<lparr>dp_invoke_id = Some 26, dp_logical_name = ''PEN'', dp_data = []\<rparr>)
   \<and> \<not> is_new_style_push (Some example_notification)
   \<and> (\<exists>r. parse_dlms_push_xml (Some example_notification) = Inr (Obis_push r))
   \<and> \<not> is_new_style_push None"
proof -
  note day = is_new_style_push_spec [of "Some example_day_push"]
  note obis = is_new_style_push_spec [of "Some example_notification"]
  note none = is_new_style_push_spec [of None]
  have "\<forall>e\<in>set [Elem ''DataValue'' [] None [example_day_structure]]. el_tag e \<noteq> ''Structure''"
    by simp
  moreover have "el_tag example_day_structure = ''Structure''"
    "el_children example_day_structure
       = Elem ''OctetString'' [(''Value'', ''50454E'')] None []
         # [Elem ''Array'' [(''Qty'', ''00'')] None []]"
    by (simp_all add: example_day_structure_def)
  moreover have "el_tag (Elem ''OctetString'' [(''Value'', ''50454E'')] None []) = ''OctetString''"
    "length (et_get (Elem ''OctetString'' [(''Value'', ''50454E'')] None []) ''Value'' []) \<noteq> 12"
    by (simp_all add: et_get_def get_default_def)
  ultimately have 1: "is_new_style_push (Some example_day_push)"
    using day example_day_find example_day_iter by blast
  with day have "parse_dlms_push_xml (Some example_day_push) =
          (case parse_new_style_push (Some example_day_push) of
             Inl e \<Rightarrow> Inl e | Inr r \<Rightarrow> Inr (Day_push r))" by blast
  then have 2: "parse_dlms_push_xml (Some example_day_push)
       = Inr (Day_push \<lparr>dp_invoke_id = Some 26, dp_logical_name = ''PEN'', dp_data = []\<rparr>)"
    by (simp add: example_day_result)
  have 3: "\<not> is_new_style_push (Some example_notification)"
  proof
    assume "is_new_style_push (Some example_notification)"
    with obis obtain root dv before s after c cs where r: "Some example_notification = Some root"
      and f: "et_find [Desc ''NotificationBody'', Child ''DataValue''] ([], root) = Some dv"
      and i: "iter_elems (snd dv) = before @ s # after"
      and b: "\<forall>e\<in>set before. el_tag e \<noteq> ''Structure''" and t: "el_tag s = ''Structure''"
      and ch: "el_children s = c # cs" and o: "el_tag c = ''OctetString''"
      by blast
    from r f have dv: "dv = ([1, 0], Elem ''DataValue'' [] None [example_structure])"
      using example_obis_find by simp
    from i b t have "List.find (\<lambda>e. el_tag e = ''Structure'') (iter_elems (snd dv)) = Some s"
      unfolding find_first by blast
    then have "s = example_structure" unfolding dv snd_conv example_obis_first by simp
    with ch have "c = example_array" by (simp add: example_structure_def)
    with o show False by (simp add: example_array_def)
  qed
  with obis have "parse_dlms_push_xml (Some example_notification) =
          (case extract_obis_values_and_invoke_id (Some example_notification) of
             Inl e \<Rightarrow> Inl e | Inr r \<Rightarrow> Inr (Obis_push r))" by blast
  moreover have "\<exists>r. extract_obis_values_and_invoke_id (Some example_notification) = Inr r"
    by (simp add: extract_obis_values_and_invoke_id_def Let_def split: option.splits)
  ultimately have 4: "\<exists>r. parse_dlms_push_xml (Some example_notification) = Inr (Obis_push r)"
    by auto
  have 5: "\<not> is_new_style_push None"
  proof
    assume "is_new_style_push None"
    with none show False by blast
  qed
  from 1 2 3 4 5 show ?thesis by blast
qed

section \<open>Properties of the autoconnect check\<close>































section \<open>Properties of the frame check sequence\<close>

lemma crc_shift_range: "0 \<le> crc_shift crc \<and> crc_shift crc < 65536"
proof -
  have m: "(65535::int) = mask 16" by (simp add: mask_eq_exp_minus_1)
  have "0 \<le> x AND (65535::int) \<and> x AND (65535::int) < 65536" for x :: int
    unfolding m take_bit_eq_mask [symmetric] by (simp add: take_bit_eq_mod)
  then show ?thesis by (simp add: crc_shift_def)
qed

lemma crc_bits_range: "0 < n \<Longrightarrow> 0 \<le> crc_bits n crc \<and> crc_bits n crc < 65536"
proof (induction n arbitrary: crc)
  case 0
  then show ?case by simp
next
  case (Suc n)
  show ?case
  proof (cases n)
    case 0
    then show ?thesis using crc_shift_range [of crc] by simp
  next
    case (Suc m)
    then show ?thesis using Suc.IH [of "crc_shift crc"] by simp
  qed
qed

lemma crc_byte_range: "0 \<le> crc_byte crc b \<and> crc_byte crc b < 65536"
  unfolding crc_byte_def by (rule crc_bits_range) simp

lemma foldl_crc_byte_range:
  "0 \<le> crc \<Longrightarrow> crc < 65536 \<Longrightarrow>
   0 \<le> foldl crc_byte crc data \<and> foldl crc_byte crc data < 65536"
proof (induction data arbitrary: crc)
  case Nil
  then show ?case by simp
next
  case (Cons b data)
  show ?case using Cons.IH [of "crc_byte crc b"] crc_byte_range [of crc b] by simp
qed

lemma fcs_fallback_range: "0 \<le> fcs_fallback data \<and> fcs_fallback data < 65536"
  unfolding fcs_fallback_def by (rule foldl_crc_byte_range) simp_all







section \<open>Properties of \_generate\_response\<close>

lemma fromhex_hex: "list_all is_hex s \<Longrightarrow> fromhex s = unhexlify s"
proof (induction s rule: unhexlify.induct)
  case 1
  then show ?case by simp
next
  case (2 c)
  then show ?case using hex_not_special(1) [of c] by (simp add: int_space_def)
next
  case (3 c d cs)
  then show ?case using hex_not_special(1) [of c] by (simp add: int_space_def)
qed

lemma and_255_nat: "(n::nat) AND 255 = n mod 256"
proof -
  have m: "(255::nat) = mask 8" by (simp add: mask_eq_exp_minus_1)
  show ?thesis unfolding m take_bit_eq_mask [symmetric] by (simp add: take_bit_eq_mod)
qed

lemma set_uint8_of_nat: "set_uint8 v = of_nat v"
proof -
  have "(of_nat (v mod 256) :: byte) = of_nat v"
    using word_of_nat_eq_iff [where ?'a = 8, of "v mod 256" v] by (simp add: take_bit_eq_mod)
  then show ?thesis by (simp add: set_uint8_def and_255_nat)
qed

lemma days_in_month_le: "days_in_month y m \<le> 31"
  by (simp add: days_in_month_def)

lemma list4:
  assumes "length t = 4"
  obtains a b c d where "t = [a, b, c, d]"
  using assms by (auto simp: eval_nat_numeral length_Suc_conv)

lemma list5:
  assumes "length t = 5"
  obtains a b c d e where "t = [a, b, c, d, e]"
  using assms by (auto simp: eval_nat_numeral length_Suc_conv)

lemma generate_response_parts:
  assumes addr: "length address_field = 5"
    and hex: "length invoke_clean_hex = 8" "list_all is_hex invoke_clean_hex"
    and now: "valid_datetime now"
    and fcs16: "\<forall>d. 0 \<le> calculate_fcs gx d \<and> calculate_fcs gx d < 65536"
  shows "\<exists>invoke. fromhex invoke_clean_hex = Some invoke \<and> length invoke = 4 \<and>
          (let pdu = [0x10] @ invoke
                 @ [0x0C, of_nat (year now div 256), of_nat (year now mod 256),
                    of_nat (month now), of_nat (day now), 0xFF,
                    of_nat (hour now), of_nat (minute now), of_nat (second now),
                    0xFF, 0xFF, 0x4C, 0x00, 0x00];
               info = [0x13] @ [0xE6, 0xE7, 0x00] @ pdu;
               len = of_nat (length address_field + length info + 6);
               fcs1 = be16 (calculate_fcs gx ([0xA0] @ [len] @ address_field @ [0x13]));
               fcs2 = be16 (calculate_fcs gx ([0xA0] @ [len] @ address_field @ [0x13] @ fcs1
                                               @ [0xE6, 0xE7, 0x00] @ pdu))
           in unat len = length address_field + length info + 6
              \<and> generate_response gx now address_field invoke_clean_hex
                  = Some ([0x7E, 0xA0, len] @ address_field @ [0x13] @ fcs1 @ [0xE6, 0xE7, 0x00]
                          @ pdu @ fcs2 @ [0x7E]))"
proof -
  from hex obtain invoke where inv: "unhexlify invoke_clean_hex = Some invoke"
    and "2 * length invoke = length invoke_clean_hex"
    using unhexlify_hex [of invoke_clean_hex] by auto
  with hex have l4: "length invoke = 4" by simp
  have fh: "fromhex invoke_clean_hex = Some invoke" using hex inv by (simp add: fromhex_hex)
  define pdu where "pdu = [0x10] @ invoke
                 @ [0x0C, of_nat (year now div 256), of_nat (year now mod 256),
                    of_nat (month now), of_nat (day now), 0xFF,
                    of_nat (hour now), of_nat (minute now), of_nat (second now),
                    0xFF, 0xFF, 0x4C, 0x00, 0x00 :: byte]"
  have small: "year now div 256 < 256" "month now < 256" "day now < 256" "hour now < 256"
    "minute now < 256" "second now < 256"
    using now days_in_month_le [of "year now" "month now"] by (auto simp: valid_datetime_def)
  have yh: "drop_bit 8 (year now) mod 256 = year now div 256"
    using small(1) by (simp add: drop_bit_eq_div)
  have inv_id: "map (set_uint8 \<circ> unat) invoke = invoke"
    by (simp add: set_uint8_of_nat map_idI)
  have pdu: "map set_uint8 ([0x10] @ map unat invoke
                   @ [0x0C, drop_bit 8 (year now) AND 0xFF, year now AND 0xFF, month now, day now,
                      0xFF, hour now, minute now, second now, 0xFF, 0xFF, 0x4C, 0x00, 0x00])
             = pdu"
    unfolding pdu_def map_append map_map inv_id
    by (simp add: set_uint8_of_nat yh and_255_nat)
  have lp: "length pdu = 19" using l4 by (simp add: pdu_def)
  have len: "length (address_field @ [0x13] @ [0xE6, 0xE7, 0x00] @ pdu) + 6 = 34"
    using addr lp by simp
  have len': "length address_field + length ([0x13] @ [0xE6, 0xE7, 0x00] @ pdu) + 6 = 34"
    using addr lp by simp
  have lb: "bytes_of [34] = Some [34]" by (simp add: bytes_of_def to_byte_def)
  define fcs1 where "fcs1 = be16 (calculate_fcs gx ([0xA0] @ [34] @ address_field @ [0x13]))"
  have f1: "to_bytes2_big (calculate_fcs gx ([0xA0] @ [34] @ address_field @ [0x13])) = Some fcs1"
    using fcs16 by (simp add: to_bytes2_big_def fcs1_def)
  define fcs2 where "fcs2 = be16 (calculate_fcs gx ([0xA0] @ [34] @ address_field @ [0x13] @ fcs1
                                               @ [0xE6, 0xE7, 0x00] @ pdu))"
  have f2: "to_bytes2_big (calculate_fcs gx ([0xA0] @ [34] @ address_field @ [0x13] @ fcs1
                                               @ [0xE6, 0xE7, 0x00] @ pdu)) = Some fcs2"
    using fcs16 by (simp add: to_bytes2_big_def fcs2_def)
  have res: "generate_response gx now address_field invoke_clean_hex
             = Some ([0x7E, 0xA0, 34] @ address_field @ [0x13] @ fcs1 @ [0xE6, 0xE7, 0x00]
                     @ pdu @ fcs2 @ [0x7E])"
    unfolding generate_response_def fh option.case pdu Let_def len lb
    using f1 f2 by simp
  have u: "unat (34::byte) = 34" by simp
  have "let pdu' = pdu;
               info = [0x13] @ [0xE6, 0xE7, 0x00] @ pdu';
               len = of_nat (length address_field + length info + 6);
               fcs1 = be16 (calculate_fcs gx ([0xA0] @ [len] @ address_field @ [0x13]));
               fcs2 = be16 (calculate_fcs gx ([0xA0] @ [len] @ address_field @ [0x13] @ fcs1
                                               @ [0xE6, 0xE7, 0x00] @ pdu'))
           in unat len = length address_field + length info + 6
              \<and> generate_response gx now address_field invoke_clean_hex
                  = Some ([0x7E, 0xA0, len] @ address_field @ [0x13] @ fcs1 @ [0xE6, 0xE7, 0x00]
                          @ pdu' @ fcs2 @ [0x7E])"
    unfolding Let_def len' res fcs1_def fcs2_def by (simp only: of_nat_numeral u simp_thms)
  then show ?thesis unfolding pdu_def using fh l4 by blast
qed

lemma fcs_fallback_example_1:
  "calculate_fcs None [0xA0, 0x22, 0x00, 0x02, 0x44, 0xC9, 0x03, 0x13] = 0x964B"
  by code_simp

lemma fcs_fallback_example_2:
  "calculate_fcs None
     [0xA0, 0x22, 0x00, 0x02, 0x44, 0xC9, 0x03, 0x13, 0x96, 0x4B, 0xE6, 0xE7, 0x00,
      0x10, 0x00, 0x00, 0x00, 0x1A, 0x0C, 0x07, 0xEA, 0x01, 0x0D, 0xFF, 0x0E, 0x21, 0x14,
      0xFF, 0xFF, 0x4C, 0x00, 0x00] = 0x6D90"
  by code_simp

lemma fromhex_example: "fromhex ''0000001A'' = Some [0x00, 0x00, 0x00, 0x1A]"
  by code_simp

lemma is_hex_example: "list_all is_hex ''0000001A''"
  by code_simp

lemma valid_datetime_example:
  "valid_datetime \<lparr>year = 2026, month = 1, day = 13, hour = 14, minute = 33, second = 20\<rparr>"
  by (simp add: valid_datetime_def days_in_month_def)

lemma calculate_fcs_None_range:
  "\<forall>d. 0 \<le> calculate_fcs None d \<and> calculate_fcs None d < 65536"
  by (simp add: calculate_fcs_def fcs_fallback_range)

lemma generate_response_example:
  "generate_response None
     \<lparr>year = 2026, month = 1, day = 13, hour = 14, minute = 33, second = 20\<rparr>
     [0x00, 0x02, 0x44, 0xC9, 0x03] ''0000001A''
   = Some [0x7E, 0xA0, 0x22, 0x00, 0x02, 0x44, 0xC9, 0x03, 0x13, 0x96, 0x4B, 0xE6, 0xE7, 0x00,
           0x10, 0x00, 0x00, 0x00, 0x1A, 0x0C, 0x07, 0xEA, 0x01, 0x0D, 0xFF, 0x0E, 0x21, 0x14,
           0xFF, 0xFF, 0x4C, 0x00, 0x00, 0x6D, 0x90, 0x7E]"
proof -
  have "length [0x00, 0x02, 0x44, 0xC9, 0x03 :: byte] = 5" "length ''0000001A'' = 8"
    by simp_all
  from generate_response_parts [OF this is_hex_example valid_datetime_example
      calculate_fcs_None_range]
  show ?thesis
    unfolding fromhex_example
    by (simp add: Let_def fcs_fallback_example_1 fcs_fallback_example_2 be16_def)
qed

text \<open>
  C1 (as the code has it).  For a 5-byte address field and an invoke-id of 8 hexadecimal
  characters, \<open>_generate_response\<close> returns the frame 0x7E, 0xA0, length, address field,
  0x13, FCS1 (2 bytes, big-endian), 0xE6 0xE7 0x00, PDU body, FCS2 (2 bytes,
  big-endian), 0x7E.  The PDU body is the tag 0x10, the 4 invoke-id bytes, the tag 0x0C
  and 13 bytes: year (high, low), month, day, 0xFF, hour, minute, second, 0xFF, 0xFF,
  0x4C, 0x00, 0x00.  The information field is 0x13, 0xE6 0xE7 0x00 and the PDU body; the
  length byte is the length of the address field plus that of the information field
  plus 6; FCS1 is the checksum of 0xA0, length, address field, 0x13, and FCS2 the
  checksum of 0xA0, length, address field, 0x13, FCS1, 0xE6 0xE7 0x00 and the PDU body.
  The current time is a valid \<open>datetime\<close>, and the checksum is a 16-bit value.
\<close>

theorem generate_response_frame:
  assumes "length address_field = 5"
    and "length invoke_clean_hex = 8" "list_all is_hex invoke_clean_hex"
    and "valid_datetime now"
    and "\<forall>d. 0 \<le> calculate_fcs gx d \<and> calculate_fcs gx d < 65536"
  shows "\<exists>invoke. fromhex invoke_clean_hex = Some invoke \<and> length invoke = 4 \<and>
          (let pdu = [0x10] @ invoke
                 @ [0x0C, of_nat (year now div 256), of_nat (year now mod 256),
                    of_nat (month now), of_nat (day now), 0xFF,
                    of_nat (hour now), of_nat (minute now), of_nat (second now),
                    0xFF, 0xFF, 0x4C, 0x00, 0x00];
               info = [0x13] @ [0xE6, 0xE7, 0x00] @ pdu;
               len = of_nat (length address_field + length info + 6);
               fcs1 = be16 (calculate_fcs gx ([0xA0] @ [len] @ address_field @ [0x13]));
               fcs2 = be16 (calculate_fcs gx ([0xA0] @ [len] @ address_field @ [0x13] @ fcs1
                                               @ [0xE6, 0xE7, 0x00] @ pdu))
           in unat len = length address_field + length info + 6
              \<and> generate_response gx now address_field invoke_clean_hex
                  = Some ([0x7E, 0xA0, len] @ address_field @ [0x13] @ fcs1 @ [0xE6, 0xE7, 0x00]
                          @ pdu @ fcs2 @ [0x7E]))"
  using assms by (rule generate_response_parts)

theorem generate_response_frame_witness:
  "generate_response None
     \<lparr>year = 2026, month = 1, day = 13, hour = 14, minute = 33, second = 20\<rparr>
     [0x00, 0x02, 0x44, 0xC9, 0x03] ''0000001A''
   = Some [0x7E, 0xA0, 0x22, 0x00, 0x02, 0x44, 0xC9, 0x03, 0x13, 0x96, 0x4B, 0xE6, 0xE7, 0x00,
           0x10, 0x00, 0x00, 0x00, 0x1A, 0x0C, 0x07, 0xEA, 0x01, 0x0D, 0xFF, 0x0E, 0x21, 0x14,
           0xFF, 0xFF, 0x4C, 0x00, 0x00, 0x6D, 0x90, 0x7E]"
proof -
  have "length [0x00, 0x02, 0x44, 0xC9, 0x03 :: byte] = 5" "length ''0000001A'' = 8"
    by simp_all
  from generate_response_frame [OF this is_hex_example valid_datetime_example
      calculate_fcs_None_range]
  show ?thesis
    unfolding fromhex_example
    by (simp add: Let_def fcs_fallback_example_1 fcs_fallback_example_2 be16_def)
qed

text \<open>
  C1 as stated counts 12 bytes of date and time after the tag 0x0C.  No frame of the
  stated shape with 12 such bytes is returned: the code stores 13 (the frame has 36
  bytes and its length byte is 34).
\<close>

theorem generate_response_twelve_bytes_counterexample:
  "\<not> (\<exists>len fcs1 dt fcs2.
        length fcs1 = 2 \<and> length dt = 12 \<and> length fcs2 = 2
        \<and> generate_response None
             \<lparr>year = 2026, month = 1, day = 13, hour = 14, minute = 33, second = 20\<rparr>
             [0x00, 0x02, 0x44, 0xC9, 0x03] ''0000001A''
           = Some ([0x7E, 0xA0, len] @ [0x00, 0x02, 0x44, 0xC9, 0x03] @ [0x13] @ fcs1
                   @ [0xE6, 0xE7, 0x00] @ [0x10, 0x00, 0x00, 0x00, 0x1A] @ [0x0C] @ dt
                   @ fcs2 @ [0x7E]))"
proof
  assume "\<exists>len fcs1 dt fcs2.
        length fcs1 = 2 \<and> length dt = 12 \<and> length fcs2 = 2
        \<and> generate_response None
             \<lparr>year = 2026, month = 1, day = 13, hour = 14, minute = 33, second = 20\<rparr>
             [0x00, 0x02, 0x44, 0xC9, 0x03] ''0000001A''
           = Some ([0x7E, 0xA0, len] @ [0x00, 0x02, 0x44, 0xC9, 0x03] @ [0x13] @ fcs1
                   @ [0xE6, 0xE7, 0x00] @ [0x10, 0x00, 0x00, 0x00, 0x1A] @ [0x0C] @ dt
                   @ fcs2 @ [0x7E])"
  then obtain len fcs1 dt fcs2 where l: "length fcs1 = 2" "length dt = 12" "length fcs2 = 2"
    and e: "[0x7E, 0xA0, 0x22, 0x00, 0x02, 0x44, 0xC9, 0x03, 0x13, 0x96, 0x4B, 0xE6, 0xE7, 0x00,
           0x10, 0x00, 0x00, 0x00, 0x1A, 0x0C, 0x07, 0xEA, 0x01, 0x0D, 0xFF, 0x0E, 0x21, 0x14,
           0xFF, 0xFF, 0x4C, 0x00, 0x00, 0x6D, 0x90, 0x7E]
        = [0x7E, 0xA0, len] @ [0x00, 0x02, 0x44, 0xC9, 0x03] @ [0x13] @ fcs1
                   @ [0xE6, 0xE7, 0x00] @ [0x10, 0x00, 0x00, 0x00, 0x1A] @ [0x0C] @ dt
                   @ fcs2 @ [0x7E :: byte]"
    unfolding generate_response_example by auto
  from e have "length [0x7E, 0xA0, 0x22, 0x00, 0x02, 0x44, 0xC9, 0x03, 0x13, 0x96, 0x4B, 0xE6, 0xE7, 0x00,
           0x10, 0x00, 0x00, 0x00, 0x1A, 0x0C, 0x07, 0xEA, 0x01, 0x0D, 0xFF, 0x0E, 0x21, 0x14,
           0xFF, 0xFF, 0x4C, 0x00, 0x00, 0x6D, 0x90, 0x7E :: byte]
        = length ([0x7E, 0xA0, len] @ [0x00, 0x02, 0x44, 0xC9, 0x03] @ [0x13] @ fcs1
                   @ [0xE6, 0xE7, 0x00] @ [0x10, 0x00, 0x00, 0x00, 0x1A] @ [0x0C] @ dt
                   @ fcs2 @ [0x7E :: byte])"
    by (rule arg_cong)
  with l show False by simp
qed



end
